theory Spec2Isabelle
  imports Main "HOL-Library.Product_Lexorder"
begin

unbundle bit_operations_syntax

section \<open>Settings of launch\_on\_please.py\<close>

text \<open>
  The module constants of the source. Wall-clock time is kept on a model clock that
  counts milliseconds; the float accumulator of the stability path is modelled
  separately (section on the acquisition loop).
\<close>

definition RECT_TOL :: int where
  "RECT_TOL = 3"

definition WAIT_TIMEOUT_SEC :: nat where
  "WAIT_TIMEOUT_SEC = 45"

definition STABLE_MS_BEFORE_MOVE :: nat where
  "STABLE_MS_BEFORE_MOVE = 400"

definition EARLY_MOVE_ON_DETECT :: bool where
  "EARLY_MOVE_ON_DETECT = True"

definition POLL_INTERVAL_MS :: nat where
  \<comment> \<open>\<open>POLL_INTERVAL = 0.05\<close> seconds, as a duration on the model clock\<close>
  "POLL_INTERVAL_MS = 50"

section \<open>Constants of win32con\<close>

text \<open>
  The source reads these names from the pywin32 package; the values are those of the
  Windows headers.
\<close>

definition WS_OVERLAPPED :: int where "WS_OVERLAPPED = 0x00000000"
definition WS_CAPTION :: int where "WS_CAPTION = 0x00C00000"
definition WS_SYSMENU :: int where "WS_SYSMENU = 0x00080000"
definition WS_THICKFRAME :: int where "WS_THICKFRAME = 0x00040000"
definition WS_MINIMIZEBOX :: int where "WS_MINIMIZEBOX = 0x00020000"
definition WS_MAXIMIZEBOX :: int where "WS_MAXIMIZEBOX = 0x00010000"
definition WS_EX_TOOLWINDOW :: int where "WS_EX_TOOLWINDOW = 0x00000080"

definition SW_SHOWNORMAL :: int where "SW_SHOWNORMAL = 1"
definition SW_SHOWMINIMIZED :: int where "SW_SHOWMINIMIZED = 2"
definition SW_SHOWMAXIMIZED :: int where "SW_SHOWMAXIMIZED = 3"
definition SW_MAXIMIZE :: int where "SW_MAXIMIZE = 3"
definition SW_RESTORE :: int where "SW_RESTORE = 9"

definition SWP_NOZORDER :: int where "SWP_NOZORDER = 0x0004"
definition SWP_NOACTIVATE :: int where "SWP_NOACTIVATE = 0x0010"
definition SWP_FRAMECHANGED :: int where "SWP_FRAMECHANGED = 0x0020"

section \<open>The desktop: windows, monitors, processes\<close>

text \<open>
  A rectangle is the tuple \<open>(left, top, right, bottom)\<close> that the source passes around.
\<close>

type_synonym RECT = "int \<times> int \<times> int \<times> int"

text \<open>
  One top-level window as the window manager holds it. \<open>w_show\<close> is the show command
  that \<open>GetWindowPlacement\<close> reports (1 normal, 2 minimized, 3 maximized) and
  \<open>w_normal\<close> the rectangle the window returns to when it is restored.
\<close>

record window =
  w_hwnd :: int
  w_visible :: bool
  w_style :: int
  w_exstyle :: int
  w_rect :: RECT
  w_normal :: RECT
  w_show :: int
  w_pid :: int

text \<open>
  The calls with an effect outside the program, in the order they are issued:
  process creation, \<open>ShowWindow (hwnd, cmd)\<close> and
  \<open>SetWindowPos (hwnd, insert_after, x, y, cx, cy, flags)\<close>.
\<close>

datatype event =
  Spawn string
| ShowWindowCall int int
| SetWindowPosCall int "int option" int int int int int

text \<open>
  The state of the machine the program runs on. \<open>windows\<close> lists the top-level windows
  in the order \<open>EnumWindows\<close> reports them, topmost first. The function-valued fields
  are the answers of the operating system that the program only queries: the work area
  of a monitor (\<open>GetMonitorInfoW\<close>, \<open>None\<close> when the query fails), the monitor nearest
  to a window rectangle (\<open>MonitorFromWindow\<close>), the rectangle a window takes when
  maximized on a monitor, the process table (\<open>psutil\<close>), what \<open>Popen\<close> would
  start, and the file system (\<open>os.path\<close>). \<open>trace\<close> records the outward calls made
  so far.
\<close>

record os =
  clock :: nat
  windows :: "window list"
  foreground :: "int option"
  monitors :: "(int \<times> RECT) list"
  monitor_work :: "int \<Rightarrow> RECT option"
  system_work :: "RECT option"
  screen_size :: "int \<times> int"
  monitor_from_rect :: "RECT option \<Rightarrow> int"
  maximized_rect :: "int \<Rightarrow> RECT"
  proc_exists :: "int \<Rightarrow> bool"
  proc_name :: "int \<Rightarrow> string option"
  proc_children :: "int \<Rightarrow> int list option"
  new_process :: "string \<Rightarrow> int option"
  abspath :: "string \<Rightarrow> string"
  isfile :: "string \<Rightarrow> bool"
  trace :: "event list"

datatype error =
  NoMonitorsDetected
    \<comment> \<open>\<open>RuntimeError ("No monitors detected.")\<close>\<close>
| MonitorIndexOutOfRange int nat
    \<comment> \<open>\<open>RuntimeError ("Monitor index i out of range (found n).")\<close>\<close>
| FailedToInspect
    \<comment> \<open>\<open>RuntimeError ("Failed to inspect launched process: ...")\<close>\<close>
| NoStableWindow
    \<comment> \<open>\<open>RuntimeError ("Could not find a stable main window for the launched app.")\<close>\<close>
| Win32Error
    \<comment> \<open>\<open>win32gui.error\<close>, raised by a window call on a handle that is no window\<close>
| OSError
    \<comment> \<open>raised by \<open>subprocess.Popen\<close> when the program cannot be started\<close>

subsection \<open>Queries\<close>

definition find_window :: "os \<Rightarrow> int \<Rightarrow> window option" where
  "find_window w hwnd = find (\<lambda>x. w_hwnd x = hwnd) (windows w)"

definition EnumWindows :: "os \<Rightarrow> int list" where
  "EnumWindows w = map w_hwnd (windows w)"

definition IsWindow :: "os \<Rightarrow> int \<Rightarrow> bool" where
  "IsWindow w hwnd = (find_window w hwnd \<noteq> None)"

definition IsWindowVisible :: "os \<Rightarrow> int \<Rightarrow> bool" where
  "IsWindowVisible w hwnd =
     (case find_window w hwnd of None \<Rightarrow> False | Some x \<Rightarrow> w_visible x)"

definition GetWindowRect :: "os \<Rightarrow> int \<Rightarrow> RECT option" where
  \<comment> \<open>\<open>None\<close>: the call raises \<open>win32gui.error\<close>\<close>
  "GetWindowRect w hwnd = map_option w_rect (find_window w hwnd)"

definition GetWindowLong :: "os \<Rightarrow> int \<Rightarrow> (int \<times> int) option" where
  \<comment> \<open>the pair \<open>(GWL_STYLE, GWL_EXSTYLE)\<close>; \<open>None\<close>: the call raises\<close>
  "GetWindowLong w hwnd = map_option (\<lambda>x. (w_style x, w_exstyle x)) (find_window w hwnd)"

definition GetWindowPlacement :: "os \<Rightarrow> int \<Rightarrow> int option" where
  \<comment> \<open>component 1 of the placement tuple, the show command; \<open>None\<close>: the call raises\<close>
  "GetWindowPlacement w hwnd = map_option w_show (find_window w hwnd)"

definition GetWindowThreadProcessId :: "os \<Rightarrow> int \<Rightarrow> int option" where
  "GetWindowThreadProcessId w hwnd = map_option w_pid (find_window w hwnd)"

definition MonitorFromWindow :: "os \<Rightarrow> int \<Rightarrow> int" where
  \<comment> \<open>with \<open>MONITOR_DEFAULTTONEAREST\<close>: always some monitor\<close>
  "MonitorFromWindow w hwnd = monitor_from_rect w (GetWindowRect w hwnd)"

section \<open>Monitor helpers\<close>

definition enum_monitors_sorted :: "os \<Rightarrow> (int \<times> RECT) list" where
  "enum_monitors_sorted w =
     sort_key (\<lambda>x. (case snd x of (l, t, r, b) \<Rightarrow> (l, t))) (monitors w)"

definition workarea_for_hmon :: "os \<Rightarrow> int \<Rightarrow> RECT" where
  "workarea_for_hmon w hmon =
     (case monitor_work w hmon of
        Some rw \<Rightarrow> rw
      | None \<Rightarrow>
          (case system_work w of
             Some r \<Rightarrow> r
           | None \<Rightarrow> (0, 0, fst (screen_size w), snd (screen_size w))))"

section \<open>Window helpers\<close>

definition rect :: "os \<Rightarrow> int \<Rightarrow> RECT option" where
  "rect w hwnd = GetWindowRect w hwnd"

definition edges :: "RECT \<Rightarrow> int list" where
  "edges a = (case a of (l, t, r, b) \<Rightarrow> [l, t, r, b])"

definition rect_changed :: "RECT option \<Rightarrow> RECT option \<Rightarrow> bool" where
  "rect_changed a b =
     (case (a, b) of
        (Some ra, Some rb) \<Rightarrow>
          list_ex (\<lambda>i. \<bar>edges ra ! i - edges rb ! i\<bar> > RECT_TOL) [0..<4]
      | _ \<Rightarrow> True)"

definition WS_OVERLAPPEDWINDOW :: int where
  "WS_OVERLAPPEDWINDOW =
     (WS_OVERLAPPED OR WS_CAPTION OR WS_SYSMENU OR WS_THICKFRAME
      OR WS_MINIMIZEBOX OR WS_MAXIMIZEBOX)"

definition is_main_style :: "os \<Rightarrow> int \<Rightarrow> bool" where
  \<comment> \<open>the truth value of \<open>(style & WS_OVERLAPPEDWINDOW) and not is_tool\<close>\<close>
  "is_main_style w hwnd =
     (case GetWindowLong w hwnd of
        None \<Rightarrow> False
      | Some (style, ex) \<Rightarrow>
          let is_tool = (ex AND WS_EX_TOOLWINDOW \<noteq> 0)
          in (style AND WS_OVERLAPPEDWINDOW \<noteq> 0) \<and> \<not> is_tool)"

definition list_top_windows :: "os \<Rightarrow> int set" where
  "list_top_windows w = set (filter (IsWindowVisible w) (EnumWindows w))"

definition hwnd_pid :: "os \<Rightarrow> int \<Rightarrow> int option" where
  "hwnd_pid w hwnd = GetWindowThreadProcessId w hwnd"

text \<open>
  A character of a string is one of the code points 0 to 255. On these \<open>str.lower\<close>
  moves the letters A to Z, and the letters from U+00C0 to U+00DE other than the
  multiplication sign U+00D7, 32 places up and leaves every other character as it is.
\<close>

definition lower_char :: "char \<Rightarrow> char" where
  "lower_char c =
     (let n = (of_char c :: nat)
      in if (65 \<le> n \<and> n \<le> 90) \<or> (192 \<le> n \<and> n \<le> 222 \<and> n \<noteq> 215) then char_of (n + 32)
         else c)"

definition lower :: "string \<Rightarrow> string" where
  "lower s = map lower_char s"

definition hwnd_exe_name :: "os \<Rightarrow> int \<Rightarrow> string" where
  "hwnd_exe_name w hwnd =
     (case hwnd_pid w hwnd of
        None \<Rightarrow> ''''
      | Some pid \<Rightarrow>
          if pid = 0 then ''''
          else (case proc_name w pid of None \<Rightarrow> '''' | Some n \<Rightarrow> lower n))"

subsection \<open>The candidate scanner\<close>

text \<open>
  The three optional arguments of \<open>pick_best_window_by\<close> default to \<open>None\<close>; each is
  used through its truth value, so that an empty set or an empty string counts like
  \<open>None\<close>.
\<close>

definition passes_filters :: "os \<Rightarrow> int \<Rightarrow> bool" where
  \<comment> \<open>the early returns of \<open>_enum\<close>: visible, main style, rectangle readable, size\<close>
  "passes_filters w hwnd =
     (IsWindowVisible w hwnd \<and> is_main_style w hwnd \<and>
      (case GetWindowRect w hwnd of
         None \<Rightarrow> False
       | Some (l, t, r, b) \<Rightarrow> \<not> (r - l < 200 \<or> b - t < 150)))"

definition area :: "os \<Rightarrow> int \<Rightarrow> int" where
  \<comment> \<open>\<open>w*h\<close> of a window whose rectangle is readable\<close>
  "area w hwnd =
     (case GetWindowRect w hwnd of None \<Rightarrow> 0 | Some (l, t, r, b) \<Rightarrow> (r - l) * (b - t))"

definition score :: "int set option \<Rightarrow> string option \<Rightarrow> int set option \<Rightarrow> os \<Rightarrow> int \<Rightarrow> int" where
  "score pid_set exe_base since_handles w hwnd =
     (let pid = hwnd_pid w hwnd;
          name = hwnd_exe_name w hwnd
      in (case pid_set of
            None \<Rightarrow> 0
          | Some ps \<Rightarrow>
              if ps \<noteq> {} \<and> (case pid of None \<Rightarrow> False | Some p \<Rightarrow> p \<in> ps) then 1000 else 0)
       + (case exe_base of
            None \<Rightarrow> 0
          | Some e \<Rightarrow> if e \<noteq> [] \<and> name = e then 500 else 0)
       + (case since_handles of
            None \<Rightarrow> 0
          | Some hs \<Rightarrow> if hs \<noteq> {} \<and> hwnd \<notin> hs then 200 else 0))"

definition candidate ::
  "int set option \<Rightarrow> string option \<Rightarrow> int set option \<Rightarrow> os \<Rightarrow> int \<Rightarrow> (int \<times> int \<times> int) option" where
  \<comment> \<open>what \<open>_enum\<close> appends for one window: \<open>(score, w*h, hwnd)\<close>, or nothing\<close>
  "candidate pid_set exe_base since_handles w hwnd =
     (if \<not> passes_filters w hwnd then None
      else let s = score pid_set exe_base since_handles w hwnd
           in if s > 0 then Some (s, area w hwnd, hwnd) else None)"

definition sort_reverse :: "('a \<Rightarrow> 'k::linorder) \<Rightarrow> 'a list \<Rightarrow> 'a list" where
  \<comment> \<open>\<open>list.sort (key=..., reverse=True)\<close>: descending, equal keys keep their order\<close>
  "sort_reverse f xs = rev (sort_key f (rev xs))"

definition pick_best_window_by ::
  "int set option \<Rightarrow> string option \<Rightarrow> int set option \<Rightarrow> os \<Rightarrow> int option" where
  "pick_best_window_by pid_set exe_base since_handles w =
     (let candidates =
            List.map_filter (candidate pid_set exe_base since_handles w) (EnumWindows w)
      in case sort_reverse (\<lambda>x. (fst x, fst (snd x))) candidates of
           [] \<Rightarrow> None
         | c # _ \<Rightarrow> Some (snd (snd c)))"

section \<open>Calls that change the desktop\<close>

text \<open>
  The window manager is not part of the program. It is modelled as one that carries out
  each request as the Win32 documentation describes it: \<open>SetWindowPos\<close> gives the
  window the requested rectangle, and changes the Z order or the active window only when
  the flags \<open>SWP_NOZORDER\<close> or \<open>SWP_NOACTIVATE\<close> are absent; \<open>ShowWindow\<close> with
  \<open>SW_SHOWNORMAL\<close> or \<open>SW_RESTORE\<close> shows the window in its normal rectangle, with
  \<open>SW_MAXIMIZE\<close> it fills the monitor the window is on, and each of the three
  activates the window. Every call is appended to \<open>trace\<close>.

  Whatever else happens on the desktop while the program sleeps (applications creating,
  moving and closing windows, processes starting) is the parameter \<open>app\<close>, a function
  on the state that runs during every \<open>time.sleep\<close>. The clock advances only in
  \<open>time.sleep\<close>, by the requested duration.
\<close>

definition sleep :: "(os \<Rightarrow> os) \<Rightarrow> nat \<Rightarrow> os \<Rightarrow> os" where
  "sleep app ms w = (app w)\<lparr>clock := clock w + ms, trace := trace w\<rparr>"

definition update_window :: "int \<Rightarrow> (window \<Rightarrow> window) \<Rightarrow> os \<Rightarrow> os" where
  "update_window hwnd f w =
     w\<lparr>windows := map (\<lambda>x. if w_hwnd x = hwnd then f x else x) (windows w)\<rparr>"

definition raise_window :: "int \<Rightarrow> os \<Rightarrow> os" where
  "raise_window hwnd w =
     w\<lparr>windows := filter (\<lambda>x. w_hwnd x = hwnd) (windows w)
                    @ filter (\<lambda>x. w_hwnd x \<noteq> hwnd) (windows w)\<rparr>"

definition activate :: "int \<Rightarrow> os \<Rightarrow> os" where
  "activate hwnd w = (raise_window hwnd w)\<lparr>foreground := Some hwnd\<rparr>"

definition show_window :: "os \<Rightarrow> int \<Rightarrow> window \<Rightarrow> window" where
  "show_window w cmd x =
     (if cmd = SW_SHOWNORMAL \<or> cmd = SW_RESTORE then
        (if w_show x = SW_SHOWNORMAL then x\<lparr>w_visible := True\<rparr>
         else x\<lparr>w_visible := True, w_rect := w_normal x, w_show := SW_SHOWNORMAL\<rparr>)
      else if cmd = SW_MAXIMIZE then
        x\<lparr>w_visible := True,
          w_rect := maximized_rect w (monitor_from_rect w (Some (w_rect x))),
          w_show := SW_SHOWMAXIMIZED\<rparr>
      else x)"

definition ShowWindow :: "int \<Rightarrow> int \<Rightarrow> os \<Rightarrow> os" where
  \<comment> \<open>returns the previous visibility and never raises; the result is not used\<close>
  "ShowWindow hwnd cmd w =
     (let w' = w\<lparr>trace := trace w @ [ShowWindowCall hwnd cmd]\<rparr>
      in if IsWindow w hwnd \<and> (cmd = SW_SHOWNORMAL \<or> cmd = SW_RESTORE \<or> cmd = SW_MAXIMIZE)
         then activate hwnd (update_window hwnd (show_window w cmd) w')
         else w')"

definition SetWindowPos ::
  "int \<Rightarrow> int option \<Rightarrow> int \<Rightarrow> int \<Rightarrow> int \<Rightarrow> int \<Rightarrow> int \<Rightarrow> os \<Rightarrow> (error + unit) \<times> os" where
  "SetWindowPos hwnd insert_after x y cx cy flags w =
     (let w' = w\<lparr>trace := trace w @ [SetWindowPosCall hwnd insert_after x y cx cy flags]\<rparr>
      in if \<not> IsWindow w hwnd then (Inl Win32Error, w')
         else
           let r = (x, y, x + cx, y + cy);
               w1 = update_window hwnd
                      (\<lambda>v. v\<lparr>w_rect := r,
                              w_normal := (if w_show v = SW_SHOWNORMAL then r else w_normal v)\<rparr>) w';
               w2 = (if flags AND SWP_NOZORDER = 0 then raise_window hwnd w1 else w1);
               w3 = (if flags AND SWP_NOACTIVATE = 0 then w2\<lparr>foreground := Some hwnd\<rparr> else w2)
           in (Inr (), w3))"

definition Popen :: "string \<Rightarrow> os \<Rightarrow> (error + int) \<times> os" where
  \<comment> \<open>\<open>subprocess.Popen ([exe_path], ...)\<close>; the result is the pid of the new process\<close>
  "Popen exe_path w =
     (case new_process w exe_path of
        None \<Rightarrow> (Inl OSError, w)
      | Some pid \<Rightarrow> (Inr pid, w\<lparr>trace := trace w @ [Spawn exe_path]\<rparr>))"

section \<open>The acquisition loop\<close>

text \<open>
  The accumulator \<open>stable_time\<close> of the stability path is a Python float that grows by
  \<open>POLL_INTERVAL = 0.05\<close> and is compared with \<open>STABLE_MS_BEFORE_MOVE / 1000.0\<close>.
  Floats are modelled as multiples of \<open>2 ^ -57\<close> seconds, rounded after every operation
  to 53 significant bits, ties to even, as IEEE 754 binary64 does; this is exact for
  every value from \<open>2 ^ -5\<close> seconds upwards, and for zero.
\<close>

fun bit_length :: "nat \<Rightarrow> nat" where
  "bit_length n = (if n = 0 then 0 else Suc (bit_length (n div 2)))"

declare bit_length.simps [simp del]

definition round_double :: "nat \<Rightarrow> nat \<Rightarrow> nat" where
  \<comment> \<open>the float nearest to \<open>N / D\<close>, both in units of \<open>2 ^ -57\<close>\<close>
  "round_double N D =
     (let k = bit_length (N div D) - 53;
          u = D * 2 ^ k;
          q = N div u;
          r = N mod u
      in (if 2 * r > u \<or> (2 * r = u \<and> odd q) then q + 1 else q) * 2 ^ k)"

definition float_add :: "nat \<Rightarrow> nat \<Rightarrow> nat" where
  "float_add a b = round_double (a + b) 1"

definition POLL_INTERVAL :: nat where
  \<comment> \<open>the literal \<open>0.05\<close>\<close>
  "POLL_INTERVAL = round_double (5 * 2 ^ 57) 100"

definition stable_needed :: nat where
  \<comment> \<open>\<open>STABLE_MS_BEFORE_MOVE / 1000.0\<close>\<close>
  "stable_needed = round_double (STABLE_MS_BEFORE_MOVE * 2 ^ 57) 1000"

definition truthy :: "int option \<Rightarrow> bool" where
  \<comment> \<open>the truth value of a handle or \<open>None\<close>\<close>
  "truthy c = (case c of None \<Rightarrow> False | Some h \<Rightarrow> h \<noteq> 0)"

function wait_early :: "(os \<Rightarrow> os) \<Rightarrow> (os \<Rightarrow> int option) \<Rightarrow> nat \<Rightarrow> os \<Rightarrow> int option \<times> os" where
  "wait_early app select_fn deadline w =
     (if clock w < deadline then
        (let cand = select_fn w
         in if truthy cand then (cand, w)
            else wait_early app select_fn deadline (sleep app POLL_INTERVAL_MS w))
      else (None, w))"
  by pat_completeness auto
termination
  by (relation "measure (\<lambda>(app, select_fn, deadline, w). deadline - clock w)")
     (auto simp: sleep_def POLL_INTERVAL_MS_def)

declare wait_early.simps [simp del]

definition stable_update ::
  "int option \<Rightarrow> RECT option \<Rightarrow> nat \<Rightarrow> int option \<Rightarrow> RECT option
     \<Rightarrow> int option \<times> RECT option \<times> nat" where
  \<comment> \<open>lines 205 to 210: the new \<open>(hwnd, last_rect, stable_time)\<close> for a candidate and its rectangle\<close>
  "stable_update hwnd last_rect stable_time cand cur =
     (if last_rect = None \<or> cand \<noteq> hwnd \<or> rect_changed cur last_rect
      then (cand, cur, 0)
      else (hwnd, last_rect, float_add stable_time POLL_INTERVAL))"

function wait_stable ::
  "(os \<Rightarrow> os) \<Rightarrow> (os \<Rightarrow> int option) \<Rightarrow> nat \<Rightarrow> int option \<Rightarrow> RECT option \<Rightarrow> nat \<Rightarrow> os
     \<Rightarrow> int option \<times> os" where
  "wait_stable app select_fn deadline hwnd last_rect stable_time w =
     (if clock w < deadline then
        (let cand = select_fn w
         in if \<not> truthy cand then
              wait_stable app select_fn deadline hwnd last_rect stable_time
                (sleep app POLL_INTERVAL_MS w)
            else
              (case stable_update hwnd last_rect stable_time cand (rect w (the cand)) of
                 (hwnd', last_rect', stable_time') \<Rightarrow>
                   if stable_time' \<ge> stable_needed then (hwnd', w)
                   else wait_stable app select_fn deadline hwnd' last_rect' stable_time'
                          (sleep app POLL_INTERVAL_MS w)))
      else (None, w))"
  by pat_completeness auto
termination
  by (relation "measure (\<lambda>(app, select_fn, deadline, hwnd, last_rect, stable_time, w).
        deadline - clock w)")
     (auto simp: sleep_def POLL_INTERVAL_MS_def)

declare wait_stable.simps [simp del]

definition wait_for_stable_window_policy ::
  "bool \<Rightarrow> (os \<Rightarrow> os) \<Rightarrow> (os \<Rightarrow> int option) \<Rightarrow> nat \<Rightarrow> os \<Rightarrow> int option \<times> os" where
  \<comment> \<open>\<open>wait_for_stable_window\<close> with the value of \<open>EARLY_MOVE_ON_DETECT\<close> as first argument\<close>
  "wait_for_stable_window_policy early app select_fn timeout w =
     (let deadline = clock w + timeout * 1000
      in if early then wait_early app select_fn deadline w
         else wait_stable app select_fn deadline None None 0 w)"

definition wait_for_stable_window ::
  "(os \<Rightarrow> os) \<Rightarrow> (os \<Rightarrow> int option) \<Rightarrow> nat \<Rightarrow> os \<Rightarrow> int option \<times> os" where
  "wait_for_stable_window = wait_for_stable_window_policy EARLY_MOVE_ON_DETECT"

section \<open>The placement engine\<close>

definition park_geometry :: "RECT \<Rightarrow> int \<times> int \<times> int \<times> int" where
  \<comment> \<open>\<open>(park_x, park_y, park_w, park_h)\<close> of \<open>move_and_set\<close>, from the work area\<close>
  "park_geometry wa =
     (case wa of (wa_l, wa_t, wa_r, wa_b) \<Rightarrow>
        let wa_w = wa_r - wa_l;
            wa_h = wa_b - wa_t;
            park_w = min 1200 (max 800 (wa_w - 200));
            park_h = min 900 (max 600 (wa_h - 200));
            park_x = wa_l + max 20 ((wa_w - park_w) div 2);
            park_y = wa_t + max 20 ((wa_h - park_h) div 3)
        in (park_x, park_y, park_w, park_h))"

definition inside :: "int \<times> int \<times> int \<times> int \<Rightarrow> RECT \<Rightarrow> bool" where
  \<comment> \<open>the window placed at \<open>(x, y)\<close> with size \<open>(cx, cy)\<close> lies within the rectangle\<close>
  "inside g wa =
     (case (g, wa) of ((x, y, cx, cy), (l, t, r, b)) \<Rightarrow>
        l \<le> x \<and> t \<le> y \<and> x + cx \<le> r \<and> y + cy \<le> b)"

subsection \<open>\<open>move_and_set\<close>\<close>

definition swp_flags :: int where
  "swp_flags = (SWP_NOZORDER OR SWP_NOACTIVATE OR SWP_FRAMECHANGED)"

definition move_and_set :: "(os \<Rightarrow> os) \<Rightarrow> int \<Rightarrow> int \<Rightarrow> string \<Rightarrow> os \<Rightarrow> (error + unit) \<times> os" where
  "move_and_set app hwnd hmon mode w =
     (case GetWindowPlacement w hwnd of
        None \<Rightarrow> (Inl Win32Error, w)
      | Some show_cmd \<Rightarrow>
          let was_maximized = (show_cmd = SW_SHOWMAXIMIZED);
              w1 = (if was_maximized then sleep app 50 (ShowWindow hwnd SW_RESTORE w)
                    else ShowWindow hwnd SW_SHOWNORMAL w)
          in (case workarea_for_hmon w1 hmon of (wa_l, wa_t, wa_r, wa_b) \<Rightarrow>
                let wa_w = wa_r - wa_l;
                    wa_h = wa_b - wa_t
                in if mode = ''normal'' then
                     (let (cur_w, cur_h) =
                            (case rect w1 hwnd of
                               None \<Rightarrow> (1000, 700)
                             | Some (l, t, r, b) \<Rightarrow>
                                 (max 300 (min (r - l) (wa_w - 40)),
                                  max 200 (min (b - t) (wa_h - 40))));
                          target_x = wa_l + 20;
                          target_y = wa_t + 20
                      in SetWindowPos hwnd None target_x target_y cur_w cur_h swp_flags w1)
                   else
                     (case park_geometry (wa_l, wa_t, wa_r, wa_b) of
                        (park_x, park_y, park_w, park_h) \<Rightarrow>
                          (case SetWindowPos hwnd None park_x park_y park_w park_h swp_flags w1 of
                             (Inl e, w2) \<Rightarrow> (Inl e, w2)
                           | (Inr u, w2) \<Rightarrow>
                               let w3 = sleep app 20 w2
                               in if mode = ''maximize'' then
                                    (Inr (), ShowWindow hwnd SW_MAXIMIZE w3)
                                  else
                                    SetWindowPos hwnd None wa_l wa_t wa_w wa_h swp_flags w3))))"

section \<open>The drift watchdog\<close>

definition drift_poll ::
  "(os \<Rightarrow> os) \<Rightarrow> int \<Rightarrow> int \<Rightarrow> string \<Rightarrow> RECT option \<Rightarrow> os \<Rightarrow> (error + RECT option) \<times> os" where
  \<comment> \<open>lines 281 to 286 of \<open>ensure_on_target\<close>: one poll; the result is the new \<open>last\<close>\<close>
  "drift_poll app hwnd hmon_target mode last_rect w =
     (let cur_hmon = MonitorFromWindow w hwnd;
          cur_rect = rect w hwnd
      in if cur_hmon \<noteq> hmon_target \<or> rect_changed cur_rect last_rect then
           (case move_and_set app hwnd hmon_target mode w of
              (Inl e, w') \<Rightarrow> (Inl e, w')
            | (Inr u, w') \<Rightarrow> (Inr (rect w' hwnd), w'))
         else (Inr cur_rect, w))"

lemma clock_ShowWindow [simp]: "clock (ShowWindow hwnd cmd w) = clock w"
  by (simp add: ShowWindow_def Let_def activate_def raise_window_def update_window_def)

lemma clock_SetWindowPos [simp]:
  "clock (snd (SetWindowPos hwnd a x y cx cy flags w)) = clock w"
  by (simp add: SetWindowPos_def Let_def raise_window_def update_window_def)

lemma clock_SetWindowPos_eq:
  "SetWindowPos hwnd a x y cx cy flags w = (res, w') \<Longrightarrow> clock w' = clock w"
  using clock_SetWindowPos [of hwnd a x y cx cy flags w] by simp

lemma clock_sleep [simp]: "clock (sleep app ms w) = clock w + ms"
  by (simp add: sleep_def)

lemma clock_move_and_set: "clock w \<le> clock (snd (move_and_set app hwnd hmon mode w))"
proof (cases "GetWindowPlacement w hwnd")
  case None
  then show ?thesis by (simp add: move_and_set_def)
next
  case (Some c)
  obtain l t r b where wa:
    "workarea_for_hmon (if c = SW_SHOWMAXIMIZED then sleep app 50 (ShowWindow hwnd SW_RESTORE w)
        else ShowWindow hwnd SW_SHOWNORMAL w) hmon = (l, t, r, b)"
    by (metis prod_cases4)
  obtain px py pw ph where pg: "park_geometry (l, t, r, b) = (px, py, pw, ph)"
    by (metis prod_cases4)
  show ?thesis
    unfolding move_and_set_def Some option.case Let_def wa prod.case pg
    by (auto split: prod.splits sum.splits option.splits dest!: clock_SetWindowPos_eq)
qed

lemma clock_drift_poll: "clock w \<le> clock (snd (drift_poll app hwnd hmon mode last_rect w))"
  using clock_move_and_set [of w app hwnd hmon mode]
  by (auto simp: drift_poll_def Let_def split: prod.splits sum.splits)

lemma clock_drift_poll_eq:
  "drift_poll app hwnd hmon mode last_rect w = (a, w') \<Longrightarrow> clock w \<le> clock w'"
  using clock_drift_poll [of w app hwnd hmon mode last_rect] by simp

function ensure_loop ::
  "(os \<Rightarrow> os) \<Rightarrow> int \<Rightarrow> int \<Rightarrow> string \<Rightarrow> nat \<Rightarrow> RECT option \<Rightarrow> os \<Rightarrow> (error + unit) \<times> os" where
  "ensure_loop app hwnd hmon_target mode until last_rect w =
     (if clock w < until then
        (if \<not> (hwnd \<noteq> 0 \<and> IsWindow w hwnd \<and> IsWindowVisible w hwnd) then (Inr (), w)
         else
           (case drift_poll app hwnd hmon_target mode last_rect w of
              (Inl e, w') \<Rightarrow> (Inl e, w')
            | (Inr last_rect', w') \<Rightarrow>
                ensure_loop app hwnd hmon_target mode until last_rect' (sleep app POLL_INTERVAL_MS w')))
      else (Inr (), w))"
  by pat_completeness auto
termination
  by (relation "measure (\<lambda>(app, hwnd, hmon_target, mode, until, last_rect, w). until - clock w)")
     (auto simp: POLL_INTERVAL_MS_def dest!: clock_drift_poll_eq [OF sym])

declare ensure_loop.simps [simp del]

definition ensure_on_target ::
  "(os \<Rightarrow> os) \<Rightarrow> int \<Rightarrow> int \<Rightarrow> string \<Rightarrow> int \<Rightarrow> os \<Rightarrow> (error + unit) \<times> os" where
  "ensure_on_target app hwnd hmon_target mode seconds w =
     (let until = clock w + nat (max 0 seconds) * 1000;
          last_rect = rect w hwnd
      in ensure_loop app hwnd hmon_target mode until last_rect w)"

section \<open>The headless core\<close>

fun discover_children :: "(os \<Rightarrow> os) \<Rightarrow> nat \<Rightarrow> int \<Rightarrow> int set \<Rightarrow> os \<Rightarrow> int set \<times> os" where
  \<comment> \<open>the loop \<open>for _ in range (15)\<close>; the first argument after \<open>app\<close> counts the rounds left\<close>
  "discover_children app 0 parent pid_set w = (pid_set, w)"
| "discover_children app (Suc n) parent pid_set w =
     (let pid_set' = (case proc_children w parent of
                        None \<Rightarrow> pid_set
                      | Some cs \<Rightarrow> pid_set \<union> set cs)
      in discover_children app n parent pid_set' (sleep app 50 w))"

definition basename :: "string \<Rightarrow> string" where
  \<comment> \<open>\<open>os.path.basename\<close> on Windows: what follows the drive and the last separator\<close>
  "basename p =
     (let q = (if 2 \<le> length p \<and> p ! 1 = CHR '':'' then drop 2 p else p)
      in rev (takeWhile (\<lambda>c. c \<noteq> CHR ''/'' \<and> c \<noteq> CHR 0x5C) (rev q)))"

definition acquire_and_place ::
  "(os \<Rightarrow> os) \<Rightarrow> int set \<Rightarrow> int set \<Rightarrow> string \<Rightarrow> int \<Rightarrow> string \<Rightarrow> int \<Rightarrow> os
     \<Rightarrow> (error + unit) \<times> os" where
  \<comment> \<open>lines 321 to 334 of \<open>run_headless\<close>\<close>
  "acquire_and_place app before pid_set exe_base hmon_target mode observe_seconds w =
     (let select = pick_best_window_by (Some pid_set) (Some exe_base) (Some before);
          (hwnd, w1) = wait_for_stable_window app select WAIT_TIMEOUT_SEC w;
          (hwnd, w2) =
             (if \<not> truthy hwnd then
                (let select_new_only = pick_best_window_by None None (Some before)
                 in wait_for_stable_window app select_new_only 10 w1)
              else (hwnd, w1))
      in if \<not> truthy hwnd then (Inl NoStableWindow, w2)
         else
           (case move_and_set app (the hwnd) hmon_target mode w2 of
              (Inl e, w3) \<Rightarrow> (Inl e, w3)
            | (Inr u, w3) \<Rightarrow> ensure_on_target app (the hwnd) hmon_target mode observe_seconds w3))"

definition run_headless ::
  "(os \<Rightarrow> os) \<Rightarrow> string \<Rightarrow> int \<Rightarrow> string \<Rightarrow> int \<Rightarrow> os \<Rightarrow> (error + unit) \<times> os" where
  "run_headless app exe_path monitor_index mode observe_seconds w =
     (let mons = enum_monitors_sorted w
      in if mons = [] then (Inl NoMonitorsDetected, w)
         else if monitor_index < 0 \<or> monitor_index \<ge> int (length mons) then
           (Inl (MonitorIndexOutOfRange monitor_index (length mons)), w)
         else
           (let hmon_target = fst (mons ! nat monitor_index);
                before = list_top_windows w
            in case Popen exe_path w of
                 (Inl e, w1) \<Rightarrow> (Inl e, w1)
               | (Inr pid, w1) \<Rightarrow>
                   if \<not> proc_exists w1 pid then (Inl FailedToInspect, w1)
                   else
                     (let exe_base = lower (basename exe_path);
                          (pid_set, w2) = discover_children app 15 pid {pid} w1
                      in acquire_and_place app before pid_set exe_base hmon_target mode
                           observe_seconds w2)))"

section \<open>The command line\<close>

record args =
  arg_exe :: "string option"
  arg_monitor :: "int option"
  arg_mode :: string
  arg_observe :: int

datatype outcome =
  Exit int
    \<comment> \<open>\<open>sys.exit (code)\<close>\<close>
| Gui
    \<comment> \<open>no \<open>--exe\<close>: the graphical front end runs\<close>

datatype command_line =
  Usage_error
    \<comment> \<open>arguments that \<open>argparse\<close> refuses: an unknown option, a missing value, a
        \<open>--monitor\<close> or \<open>--observe\<close> that is no integer, a \<open>--mode\<close> outside the choices\<close>
| Help
    \<comment> \<open>\<open>-h\<close> or \<open>--help\<close>\<close>
| Namespace args
    \<comment> \<open>arguments that \<open>argparse\<close> accepts, as the namespace it builds from them\<close>

definition parse_args :: "command_line \<Rightarrow> outcome + args" where
  \<comment> \<open>\<open>p.parse_args ()\<close>: the parser of the standard library prints the usage and leaves
      with \<open>sys.exit (2)\<close> on arguments it refuses, and with \<open>sys.exit (0)\<close> after the help\<close>
  "parse_args c =
     (case c of
        Usage_error \<Rightarrow> Inl (Exit 2)
      | Help \<Rightarrow> Inl (Exit 0)
      | Namespace a \<Rightarrow> Inr a)"

definition main :: "(os \<Rightarrow> os) \<Rightarrow> command_line \<Rightarrow> os \<Rightarrow> outcome \<times> os" where
  "main app c w =
     (case parse_args c of
        Inl out \<Rightarrow> (out, w)
      | Inr a \<Rightarrow>
          if arg_exe a \<noteq> None \<and> arg_exe a \<noteq> Some [] then
            (let exe = abspath w (the (arg_exe a))
             in if \<not> isfile w exe then (Exit 2, w)
                else if arg_monitor a = None then (Exit 2, w)
                else
                  (case run_headless app exe (the (arg_monitor a)) (arg_mode a) (arg_observe a) w of
                     (Inl e, w') \<Rightarrow> (Exit 1, w')
                   | (Inr u, w') \<Rightarrow> (Exit 0, w')))
          else (Gui, w))"

section \<open>A sample desktop\<close>

text \<open>
  Two monitors side by side, 1920 by 1080 each, with a taskbar of 40 pixels, and a
  process 10 named \<open>Notepad.exe\<close>. The examples below put windows on it.
\<close>

definition main_window :: "int \<Rightarrow> int \<Rightarrow> RECT \<Rightarrow> window" where
  "main_window h p r =
     \<lparr> w_hwnd = h, w_visible = True, w_style = WS_OVERLAPPEDWINDOW, w_exstyle = 0,
       w_rect = r, w_normal = r, w_show = SW_SHOWNORMAL, w_pid = p \<rparr>"

definition desktop :: "window list \<Rightarrow> os" where
  "desktop ws =
     \<lparr> clock = 0,
       windows = ws,
       foreground = None,
       monitors = [(2, (1920, 0, 3840, 1080)), (1, (0, 0, 1920, 1080))],
       monitor_work =
         (\<lambda>h. if h = 1 then Some (0, 0, 1920, 1040)
              else if h = 2 then Some (1920, 0, 3840, 1040) else None),
       system_work = Some (0, 0, 1920, 1040),
       screen_size = (1920, 1080),
       monitor_from_rect =
         (\<lambda>a. case a of None \<Rightarrow> 1 | Some (l, t, r, b) \<Rightarrow> if (l + r) div 2 < 1920 then 1 else 2),
       maximized_rect = (\<lambda>h. if h = 2 then (1912, -8, 3848, 1048) else (-8, -8, 1928, 1048)),
       proc_exists = (\<lambda>p. p = 10),
       proc_name = (\<lambda>p. if p = 10 then Some ''Notepad.exe'' else None),
       proc_children = (\<lambda>p. Some []),
       new_process = (\<lambda>exe. if exe = ''C:/notepad.exe'' then Some 10 else None),
       abspath = (\<lambda>p. p),
       isfile = (\<lambda>p. p = ''C:/notepad.exe''),
       trace = [] \<rparr>"

section \<open>Properties of the scanner\<close>

lemma last_sorted_max:
  fixes f :: "'a \<Rightarrow> 'k::linorder"
  assumes "sorted (map f ys)" "x \<in> set ys"
  shows "f x \<le> f (last ys)"
proof -
  from assms(2) have ne: "ys \<noteq> []" by auto
  then have ys: "ys = butlast ys @ [last ys]" by simp
  have "sorted_wrt (\<lambda>a b. f a \<le> f b) (butlast ys @ [last ys])"
    using assms(1) ys by (simp add: sorted_map)
  then have "\<forall>a\<in>set (butlast ys). f a \<le> f (last ys)"
    by (simp add: sorted_wrt_append)
  moreover have "x \<in> set (butlast ys) \<or> x = last ys"
    using assms(2) ys by (metis Un_iff empty_iff insert_iff list.set(1) list.simps(15) set_append)
  ultimately show ?thesis by auto
qed

lemma sort_reverse_hd:
  fixes f :: "'a \<Rightarrow> 'k::linorder"
  assumes "xs \<noteq> []"
  shows "sort_reverse f xs \<noteq> []"
    and "hd (sort_reverse f xs) \<in> set xs"
    and "\<forall>x\<in>set xs. f x \<le> f (hd (sort_reverse f xs))"
proof -
  let ?ys = "sort_key f (rev xs)"
  have ne: "?ys \<noteq> []" using assms by (metis length_0_conv length_rev length_sort)
  then show "sort_reverse f xs \<noteq> []" by (simp add: sort_reverse_def)
  have hd: "hd (sort_reverse f xs) = last ?ys"
    using ne by (simp add: sort_reverse_def hd_rev)
  have "last ?ys \<in> set ?ys" using ne by (rule last_in_set)
  then have "last ?ys \<in> set xs" by simp
  then show "hd (sort_reverse f xs) \<in> set xs" by (simp only: hd)
  show "\<forall>x\<in>set xs. f x \<le> f (hd (sort_reverse f xs))"
    unfolding hd using last_sorted_max [of f ?ys] by simp
qed

lemma candidate_Some:
  "candidate ps e hs w h = Some c \<longleftrightarrow>
     passes_filters w h \<and> 0 < score ps e hs w h \<and> c = (score ps e hs w h, area w h, h)"
  by (auto simp: candidate_def Let_def)

lemma set_candidates:
  "set (List.map_filter (candidate ps e hs w) (EnumWindows w)) =
     {(score ps e hs w h, area w h, h) | h.
        h \<in> set (EnumWindows w) \<and> passes_filters w h \<and> 0 < score ps e hs w h}"
proof -
  have "\<And>c. c \<in> set (List.map_filter (candidate ps e hs w) (EnumWindows w)) \<longleftrightarrow>
      (\<exists>h\<in>set (EnumWindows w). candidate ps e hs w h = Some c)"
    by (force simp: List.map_filter_def)
  then show ?thesis by (auto simp: candidate_Some)
qed

lemma pick_None:
  "pick_best_window_by ps e hs w = None \<longleftrightarrow>
     (\<forall>h\<in>set (EnumWindows w). \<not> (passes_filters w h \<and> 0 < score ps e hs w h))"
proof -
  let ?cs = "List.map_filter (candidate ps e hs w) (EnumWindows w)"
  have "pick_best_window_by ps e hs w = None \<longleftrightarrow> ?cs = []"
    using sort_reverse_hd(1) [of ?cs "\<lambda>x. (fst x, fst (snd x))"]
    by (auto simp: pick_best_window_by_def Let_def sort_reverse_def split: list.splits)
  also have "\<dots> \<longleftrightarrow> set ?cs = {}" by simp
  also have "\<dots> \<longleftrightarrow>
      (\<forall>h\<in>set (EnumWindows w). \<not> (passes_filters w h \<and> 0 < score ps e hs w h))"
    unfolding set_candidates by auto
  finally show ?thesis .
qed

lemma pick_Some:
  assumes "pick_best_window_by ps e hs w = Some h"
  shows "h \<in> set (EnumWindows w) \<and> passes_filters w h \<and> 0 < score ps e hs w h \<and>
     (\<forall>h'\<in>set (EnumWindows w). passes_filters w h' \<and> 0 < score ps e hs w h' \<longrightarrow>
        score ps e hs w h' < score ps e hs w h \<or>
        (score ps e hs w h' = score ps e hs w h \<and> area w h' \<le> area w h))"
proof -
  let ?cs = "List.map_filter (candidate ps e hs w) (EnumWindows w)"
  let ?k = "\<lambda>x::int \<times> int \<times> int. (fst x, fst (snd x))"
  have ne: "?cs \<noteq> []"
    using assms by (auto simp: pick_best_window_by_def Let_def sort_reverse_def)
  have h: "h = snd (snd (hd (sort_reverse ?k ?cs)))"
    using assms by (auto simp: pick_best_window_by_def Let_def split: list.splits)
  from sort_reverse_hd(2) [OF ne, of ?k]
  obtain g where g: "hd (sort_reverse ?k ?cs) = (score ps e hs w g, area w g, g)"
    "g \<in> set (EnumWindows w)" "passes_filters w g" "0 < score ps e hs w g"
    unfolding set_candidates by auto
  have hg: "h = g" using h g(1) by simp
  have "\<forall>c\<in>set ?cs. ?k c \<le> ?k (hd (sort_reverse ?k ?cs))"
    using sort_reverse_hd(3) [OF ne, of ?k] .
  then have "\<forall>h'\<in>set (EnumWindows w). passes_filters w h' \<and> 0 < score ps e hs w h' \<longrightarrow>
      (score ps e hs w h', area w h') \<le> (score ps e hs w g, area w g)"
    unfolding set_candidates g(1) by fastforce
  then show ?thesis using g hg by (auto simp: less_eq_prod_def)
qed

lemma score_empty_snapshot: "score None None (Some {}) w h = 0"
  by (simp add: score_def)

lemma find_window_desktop [simp]: "find_window (desktop ws) h = find (\<lambda>x. w_hwnd x = h) ws"
  by (simp add: find_window_def desktop_def)

lemma is_main_style_iff:
  "is_main_style w hwnd \<longleftrightarrow>
     (\<exists>x. find_window w hwnd = Some x \<and> w_style x AND WS_OVERLAPPEDWINDOW \<noteq> 0
        \<and> w_exstyle x AND WS_EX_TOOLWINDOW = 0)"
  by (cases "find_window w hwnd") (auto simp: is_main_style_def GetWindowLong_def Let_def)

lemma WS_OVERLAPPEDWINDOW_value: "WS_OVERLAPPEDWINDOW = 0xCF0000"
  by (simp add: WS_OVERLAPPEDWINDOW_def WS_OVERLAPPED_def WS_CAPTION_def WS_SYSMENU_def
      WS_THICKFRAME_def WS_MINIMIZEBOX_def WS_MAXIMIZEBOX_def)

definition caption_only :: window where
  \<comment> \<open>a window with a caption and no system menu, sizing frame or minimize and maximize box\<close>
  "caption_only = (main_window 7 10 (0, 0, 800, 600))\<lparr>w_style := WS_CAPTION\<rparr>"

text \<open>
  Claim C2 on a window whose style is \<open>WS_CAPTION\<close> alone: it has none of the
  system-menu, thick-frame, minimize-box and maximize-box bits, and \<open>is_main_style\<close>
  accepts it.
\<close>

theorem is_main_style_accepts_caption_only:
  "is_main_style (desktop [caption_only]) 7
   \<and> w_style caption_only AND WS_SYSMENU = 0
   \<and> w_style caption_only AND WS_THICKFRAME = 0
   \<and> w_style caption_only AND WS_MINIMIZEBOX = 0
   \<and> w_style caption_only AND WS_MAXIMIZEBOX = 0"
  by (simp add: is_main_style_iff caption_only_def main_window_def WS_OVERLAPPEDWINDOW_value
      WS_CAPTION_def WS_SYSMENU_def WS_THICKFRAME_def WS_MINIMIZEBOX_def WS_MAXIMIZEBOX_def
      WS_EX_TOOLWINDOW_def)

lemma passes_filters_main_window:
  "passes_filters (desktop [main_window h p (l, t, r, b)]) h \<longleftrightarrow> 200 \<le> r - l \<and> 150 \<le> b - t"
  by (auto simp: passes_filters_def IsWindowVisible_def is_main_style_iff GetWindowRect_def
      main_window_def WS_OVERLAPPEDWINDOW_value WS_EX_TOOLWINDOW_def)

text \<open>
  What the scanner returns, on every desktop: none exactly when no window passes the
  filters with a positive score; otherwise a window that passes the filters, has a
  positive score, and is not beaten by any other such window on score, nor on area at
  equal score. The three parts of the score are spelled out with the guards of the
  code.
\<close>

lemma pick_best_window_by_best:
  "(pick_best_window_by ps e hs w = None \<longleftrightarrow>
      (\<forall>h\<in>set (EnumWindows w). \<not> (passes_filters w h \<and> 0 < score ps e hs w h)))
   \<and> (\<forall>h. pick_best_window_by ps e hs w = Some h \<longrightarrow>
        h \<in> set (EnumWindows w) \<and> passes_filters w h \<and> 0 < score ps e hs w h \<and>
        (\<forall>h'\<in>set (EnumWindows w). passes_filters w h' \<and> 0 < score ps e hs w h' \<longrightarrow>
           score ps e hs w h' < score ps e hs w h \<or>
           (score ps e hs w h' = score ps e hs w h \<and> area w h' \<le> area w h)))
   \<and> score ps e hs w g =
        (if \<exists>S p. ps = Some S \<and> hwnd_pid w g = Some p \<and> p \<in> S then 1000 else 0)
      + (if \<exists>n. e = Some n \<and> n \<noteq> [] \<and> hwnd_exe_name w g = n then 500 else 0)
      + (if \<exists>H. hs = Some H \<and> H \<noteq> {} \<and> g \<notin> H then 200 else 0)"
proof (intro conjI allI impI)
  show "pick_best_window_by ps e hs w = None \<longleftrightarrow>
      (\<forall>h\<in>set (EnumWindows w). \<not> (passes_filters w h \<and> 0 < score ps e hs w h))"
    by (rule pick_None)
next
  fix h assume "pick_best_window_by ps e hs w = Some h"
  from pick_Some [OF this]
  show "h \<in> set (EnumWindows w)" and "passes_filters w h" and "0 < score ps e hs w h"
    and "\<forall>h'\<in>set (EnumWindows w). passes_filters w h' \<and> 0 < score ps e hs w h' \<longrightarrow>
           score ps e hs w h' < score ps e hs w h \<or>
           (score ps e hs w h' = score ps e hs w h \<and> area w h' \<le> area w h)"
    by blast+
next
  show "score ps e hs w g =
        (if \<exists>S p. ps = Some S \<and> hwnd_pid w g = Some p \<and> p \<in> S then 1000 else 0)
      + (if \<exists>n. e = Some n \<and> n \<noteq> [] \<and> hwnd_exe_name w g = n then 500 else 0)
      + (if \<exists>H. hs = Some H \<and> H \<noteq> {} \<and> g \<notin> H then 200 else 0)"
    by (cases ps; cases e; cases hs; cases "hwnd_pid w g") (auto simp: score_def Let_def)
qed

definition two_windows :: os where
  \<comment> \<open>a small window of process 10 above a larger window of another process\<close>
  "two_windows =
     desktop [main_window 1 10 (0, 0, 800, 600), main_window 2 11 (0, 0, 1000, 700)]"

lemma EnumWindows_two_windows: "EnumWindows two_windows = [1, 2]"
  by (simp add: EnumWindows_def two_windows_def desktop_def main_window_def)

lemma lower_Notepad: "lower ''Notepad.exe'' = ''notepad.exe''"
  by code_simp

lemma lower_accented:
  \<comment> \<open>the name \<open>CAF\<close> followed by U+00C9, and \<open>caf\<close> followed by U+00E9\<close>
  "lower [CHR ''C'', CHR ''A'', CHR ''F'', CHR 0xC9] = [CHR ''c'', CHR ''a'', CHR ''f'', CHR 0xE9]"
  by code_simp

lemma candidate_two_windows_1:
  "candidate (Some {10}) (Some ''notepad.exe'') (Some {5}) two_windows 1 = Some (1700, 480000, 1)"
  by (simp add: candidate_def passes_filters_def IsWindowVisible_def is_main_style_iff
      GetWindowRect_def two_windows_def main_window_def WS_OVERLAPPEDWINDOW_value
      WS_EX_TOOLWINDOW_def score_def hwnd_pid_def GetWindowThreadProcessId_def
      hwnd_exe_name_def desktop_def find_window_def area_def lower_Notepad Let_def)

lemma candidate_two_windows_2:
  "candidate (Some {10}) (Some ''notepad.exe'') (Some {5}) two_windows 2 = Some (200, 700000, 2)"
  by (simp add: candidate_def passes_filters_def IsWindowVisible_def is_main_style_iff
      GetWindowRect_def two_windows_def main_window_def WS_OVERLAPPEDWINDOW_value
      WS_EX_TOOLWINDOW_def score_def hwnd_pid_def GetWindowThreadProcessId_def
      hwnd_exe_name_def desktop_def find_window_def area_def Let_def)

lemma pick_two_windows:
  "pick_best_window_by (Some {10}) (Some ''notepad.exe'') (Some {5}) two_windows = Some 1"
  by (simp add: pick_best_window_by_def EnumWindows_two_windows List.map_filter_def
      candidate_two_windows_1 candidate_two_windows_2 sort_reverse_def less_eq_prod_def)

lemma pick_best_window_by_two_windows:
  "pick_best_window_by (Some {10}) (Some ''notepad.exe'') (Some {5}) two_windows = Some 1
   \<and> score (Some {10}) (Some ''notepad.exe'') (Some {5}) two_windows 1 = 1700
   \<and> score (Some {10}) (Some ''notepad.exe'') (Some {5}) two_windows 2 = 200"
  using pick_best_window_by_best [of "Some {10}" "Some ''notepad.exe''" "Some {5}" two_windows 2]
    pick_best_window_by_best [of "Some {10}" "Some ''notepad.exe''" "Some {5}" two_windows 1]
    candidate_two_windows_1 candidate_two_windows_2
  by (simp add: pick_two_windows candidate_Some)

lemma pick_best_window_by_lone_window:
  "pick_best_window_by (Some {10}) (Some ''notepad.exe'') (Some {5})
     (desktop [main_window 1 11 (0, 0, 800, 600)]) = Some 1"
proof -
  have "passes_filters (desktop [main_window 1 11 (0, 0, 800, 600)]) 1"
    by (simp add: passes_filters_main_window)
  moreover have "score (Some {10}) (Some ''notepad.exe'') (Some {5})
      (desktop [main_window 1 11 (0, 0, 800, 600)]) 1 = 200"
    by (simp add: score_def hwnd_pid_def GetWindowThreadProcessId_def hwnd_exe_name_def
        main_window_def desktop_def find_window_def Let_def)
  moreover have "area (desktop [main_window 1 11 (0, 0, 800, 600)]) 1 = 480000"
    by (simp add: area_def GetWindowRect_def main_window_def desktop_def find_window_def)
  ultimately have "candidate (Some {10}) (Some ''notepad.exe'') (Some {5})
      (desktop [main_window 1 11 (0, 0, 800, 600)]) 1 = Some (200, 480000, 1)"
    by (simp add: candidate_def)
  then show ?thesis
    by (simp add: pick_best_window_by_def EnumWindows_def List.map_filter_def
        sort_reverse_def desktop_def main_window_def)
qed

text \<open>
  Claim C1 on an empty snapshot. Before the launch no window is visible, so the
  snapshot is empty; afterwards a lone window of an unrelated process passes the
  filters. Its handle is absent from the snapshot, yet it gets none of the 200 points,
  its score is 0 and the scanner returns none. With a snapshot that holds some other
  handle the same window scores 200 and is returned.
\<close>

theorem pick_best_window_by_empty_snapshot:
  "list_top_windows (desktop []) = {}
   \<and> passes_filters (desktop [main_window 1 11 (0, 0, 800, 600)]) 1
   \<and> (1::int) \<notin> list_top_windows (desktop [])
   \<and> score (Some {10}) (Some ''notepad.exe'') (Some (list_top_windows (desktop [])))
        (desktop [main_window 1 11 (0, 0, 800, 600)]) 1 = 0
   \<and> pick_best_window_by (Some {10}) (Some ''notepad.exe'')
        (Some (list_top_windows (desktop [])))
        (desktop [main_window 1 11 (0, 0, 800, 600)]) = None
   \<and> pick_best_window_by (Some {10}) (Some ''notepad.exe'') (Some {5})
        (desktop [main_window 1 11 (0, 0, 800, 600)]) = Some 1"
proof -
  have e: "list_top_windows (desktop []) = {}"
    by (simp add: list_top_windows_def EnumWindows_def desktop_def)
  have "score (Some {10}) (Some ''notepad.exe'') (Some {})
      (desktop [main_window 1 11 (0, 0, 800, 600)]) h = 0" for h
    by (simp add: score_def hwnd_pid_def GetWindowThreadProcessId_def hwnd_exe_name_def
        main_window_def desktop_def find_window_def Let_def)
  then show ?thesis
    by (simp add: e passes_filters_main_window pick_None pick_best_window_by_lone_window)
qed

section \<open>Properties of the park rectangle\<close>

lemma park_fits_w:
  "max 20 (((W::int) - min 1200 (max 800 (W - 200))) div 2) + min 1200 (max 800 (W - 200)) \<le> W
     \<longleftrightarrow> 820 \<le> W"
  by arith

lemma park_fits_h:
  "max 20 (((H::int) - min 900 (max 600 (H - 200))) div 3) + min 900 (max 600 (H - 200)) \<le> H
     \<longleftrightarrow> 620 \<le> H"
  by arith

lemma inside_shift:
  "inside (l + px, t + py, pw, ph) (l, t, r, b) \<longleftrightarrow>
     0 \<le> px \<and> 0 \<le> py \<and> px + pw \<le> r - l \<and> py + ph \<le> b - t"
  unfolding inside_def prod.case by linarith

lemma park_inside_iff:
  "inside (park_geometry (l, t, r, b)) (l, t, r, b) \<longleftrightarrow> 820 \<le> r - l \<and> 620 \<le> b - t"
proof -
  have a: "0 \<le> max 20 X" for X :: int
    by (simp add: max_def)
  have "inside (park_geometry (l, t, r, b)) (l, t, r, b) \<longleftrightarrow>
      (max 20 ((r - l - min 1200 (max 800 (r - l - 200))) div 2)
         + min 1200 (max 800 (r - l - 200)) \<le> r - l \<and>
       max 20 ((b - t - min 900 (max 600 (b - t - 200))) div 3)
         + min 900 (max 600 (b - t - 200)) \<le> b - t)"
    unfolding park_geometry_def Let_def prod.case inside_shift
    by (simp only: a simp_thms)
  then show ?thesis
    by (simp only: park_fits_w park_fits_h)
qed

text \<open>
  For every work area the park rectangle is between 800 and 1200 pixels wide and
  between 600 and 900 pixels high; it lies inside the work area exactly when the work
  area is at least 820 pixels wide and 620 pixels high.
\<close>

lemma park_geometry_clamped_and_inside:
  "(case park_geometry (l, t, r, b) of (x, y, cx, cy) \<Rightarrow>
      800 \<le> cx \<and> cx \<le> 1200 \<and> 600 \<le> cy \<and> cy \<le> 900)
   \<and> (inside (park_geometry (l, t, r, b)) (l, t, r, b) \<longleftrightarrow> 820 \<le> r - l \<and> 620 \<le> b - t)"
proof
  show "case park_geometry (l, t, r, b) of (x, y, cx, cy) \<Rightarrow>
      800 \<le> cx \<and> cx \<le> 1200 \<and> 600 \<le> cy \<and> cy \<le> 900"
    by (simp add: park_geometry_def Let_def)
  show "inside (park_geometry (l, t, r, b)) (l, t, r, b) \<longleftrightarrow> 820 \<le> r - l \<and> 620 \<le> b - t"
    by (rule park_inside_iff)
qed

lemma park_geometry_sample_desktop:
  "park_geometry (0, 0, 1920, 1040) = (360, 66, 1200, 840)
   \<and> inside (park_geometry (0, 0, 1920, 1040)) (0, 0, 1920, 1040)"
  using park_geometry_clamped_and_inside [of 0 0 1920 1040]
  by (simp add: park_geometry_def Let_def)

text \<open>
  On a work area of 800 by 600 pixels the park rectangle is 800 by 600 at offset
  (20, 20): it reaches 20 pixels past the right and the bottom edge.
\<close>

lemma park_geometry_outside_small_work_area:
  "park_geometry (0, 0, 800, 600) = (20, 20, 800, 600)
   \<and> \<not> inside (park_geometry (0, 0, 800, 600)) (0, 0, 800, 600)"
  by (simp add: park_geometry_def inside_def Let_def)

section \<open>Properties of the acquisition loop\<close>

lemma trace_sleep [simp]: "trace (sleep app ms w) = trace w"
  by (simp add: sleep_def)

lemma truthy_Some: "truthy r \<longleftrightarrow> (\<exists>h. r = Some h \<and> h \<noteq> 0)"
  by (cases r) (auto simp: truthy_def)

lemma wait_early_props:
  "case wait_early app select_fn deadline w of
     (r, w') \<Rightarrow> trace w' = trace w \<and> clock w \<le> clock w' \<and>
       (if r = None then deadline \<le> clock w'
        else truthy r \<and> select_fn w' = r \<and> clock w' < deadline)"
proof (induction app select_fn deadline w rule: wait_early.induct)
  case (1 app select_fn deadline w)
  show ?case
  proof (cases "clock w < deadline")
    case False
    then show ?thesis by (subst wait_early.simps) simp
  next
    case True
    show ?thesis
    proof (cases "truthy (select_fn w)")
      case t: True
      then have "select_fn w \<noteq> None" by (auto simp: truthy_Some)
      with True t show ?thesis by (subst wait_early.simps) (simp add: Let_def)
    next
      case f: False
      have eq: "wait_early app select_fn deadline w =
          wait_early app select_fn deadline (sleep app POLL_INTERVAL_MS w)"
        using True f by (subst wait_early.simps) (simp add: Let_def)
      obtain r' v where res:
        "wait_early app select_fn deadline (sleep app POLL_INTERVAL_MS w) = (r', v)"
        by fastforce
      from "1.IH" [OF True refl f]
      have "trace v = trace w \<and> clock w + POLL_INTERVAL_MS \<le> clock v \<and>
          (if r' = None then deadline \<le> clock v
           else truthy r' \<and> select_fn v = r' \<and> clock v < deadline)"
        unfolding res by simp
      then show ?thesis unfolding eq res by simp
    qed
  qed
qed

lemma stable_needed_value: "stable_needed = 57646075230342352"
  by (simp add: stable_needed_def STABLE_MS_BEFORE_MOVE_def round_double_def Let_def
      bit_length.simps)



lemma wait_stable_props:
  "case wait_stable app select_fn deadline hwnd last_rect stable_time w of
     (r, w') \<Rightarrow> trace w' = trace w \<and> clock w \<le> clock w' \<and>
       (if r = None then deadline \<le> clock w'
        else truthy r \<and> select_fn w' = r \<and> clock w' < deadline)"
proof (induction app select_fn deadline hwnd last_rect stable_time w rule: wait_stable.induct)
  case (1 app select_fn deadline hwnd last_rect stable_time w)
  show ?case
  proof (cases "clock w < deadline")
    case False
    then show ?thesis by (subst wait_stable.simps) simp
  next
    case True
    show ?thesis
    proof (cases "truthy (select_fn w)")
      case f: False
      have eq: "wait_stable app select_fn deadline hwnd last_rect stable_time w =
          wait_stable app select_fn deadline hwnd last_rect stable_time
            (sleep app POLL_INTERVAL_MS w)"
        using True f by (subst wait_stable.simps) (simp add: Let_def)
      obtain r' v where res:
        "wait_stable app select_fn deadline hwnd last_rect stable_time
           (sleep app POLL_INTERVAL_MS w) = (r', v)"
        by fastforce
      from "1.IH"(1) [OF True refl] f
      have "trace v = trace w \<and> clock w + POLL_INTERVAL_MS \<le> clock v \<and>
          (if r' = None then deadline \<le> clock v
           else truthy r' \<and> select_fn v = r' \<and> clock v < deadline)"
        unfolding res by simp
      then show ?thesis unfolding eq res by simp
    next
      case t: True
      obtain h' l' s' where su:
        "stable_update hwnd last_rect stable_time (select_fn w) (rect w (the (select_fn w)))
           = (h', l', s')"
        by (metis prod_cases3)
      show ?thesis
      proof (cases "stable_needed \<le> s'")
        case r: True
        have eq: "wait_stable app select_fn deadline hwnd last_rect stable_time w = (h', w)"
          using True t r su by (subst wait_stable.simps) (simp add: Let_def)
        have "s' \<noteq> 0" using r by (simp add: stable_needed_value)
        then have "h' = select_fn w"
          using su by (auto simp: stable_update_def split: if_splits)
        moreover have "select_fn w \<noteq> None" using t by (auto simp: truthy_Some)
        ultimately show ?thesis unfolding eq using True t by simp
      next
        case r: False
        have eq: "wait_stable app select_fn deadline hwnd last_rect stable_time w =
            wait_stable app select_fn deadline h' l' s' (sleep app POLL_INTERVAL_MS w)"
          using True t r su by (subst wait_stable.simps) (simp add: Let_def)
        have nn: "\<not> \<not> truthy (select_fn w)" using t by simp
        obtain r' v where res:
          "wait_stable app select_fn deadline h' l' s' (sleep app POLL_INTERVAL_MS w) = (r', v)"
          by fastforce
        from "1.IH"(2) [OF True refl nn su [symmetric] refl r]
        have "trace v = trace w \<and> clock w + POLL_INTERVAL_MS \<le> clock v \<and>
            (if r' = None then deadline \<le> clock v
             else truthy r' \<and> select_fn v = r' \<and> clock v < deadline)"
          unfolding res by simp
        then show ?thesis unfolding eq res by simp
      qed
    qed
  qed
qed

lemma wait_for_stable_window_policy_props:
  "case wait_for_stable_window_policy early app select_fn timeout w of
     (r, w') \<Rightarrow> trace w' = trace w \<and> clock w \<le> clock w' \<and>
       (if r = None then clock w + timeout * 1000 \<le> clock w'
        else truthy r \<and> select_fn w' = r \<and> clock w' < clock w + timeout * 1000)"
proof (cases early)
  case True
  show ?thesis
    unfolding wait_for_stable_window_policy_def Let_def if_P [OF True]
    by (rule wait_early_props)
next
  case False
  show ?thesis
    unfolding wait_for_stable_window_policy_def Let_def if_not_P [OF False]
    by (rule wait_stable_props)
qed

lemma wait_for_stable_window_policy_result:
  assumes "wait_for_stable_window_policy early app select_fn timeout w = (r, w')"
  shows "trace w' = trace w" and "clock w \<le> clock w'"
    and "r = None \<Longrightarrow> clock w + timeout * 1000 \<le> clock w'"
    and "r \<noteq> None \<Longrightarrow> truthy r \<and> select_fn w' = r \<and> clock w' < clock w + timeout * 1000"
  using wait_for_stable_window_policy_props [where early = early and app = app
      and select_fn = select_fn and timeout = timeout and w = w]
  unfolding assms by simp_all

lemma wait_for_stable_window_policy_never:
  assumes "\<And>v. \<not> truthy (select_fn v)"
  shows "fst (wait_for_stable_window_policy early app select_fn timeout w) = None"
proof -
  obtain r w' where res: "wait_for_stable_window_policy early app select_fn timeout w = (r, w')"
    by fastforce
  have "r = None"
  proof (rule ccontr)
    assume "r \<noteq> None"
    from wait_for_stable_window_policy_result(4) [OF res this] assms show False
      by metis
  qed
  then show ?thesis by (simp add: res)
qed

lemma truthy_None [simp]: "\<not> truthy None"
  by (simp add: truthy_def)

text \<open>
  Claim C10: when the snapshot taken before the launch is empty and neither a
  process-id set nor a name is given, no window scores, the scanner returns none on
  every desktop, and an acquisition attempt that polls this scanner returns none
  under either policy, whatever windows appear while it waits.
\<close>

theorem relaxed_scan_of_empty_snapshot_finds_nothing:
  "score None None (Some {}) w h = 0
   \<and> pick_best_window_by None None (Some {}) w = None
   \<and> fst (wait_for_stable_window_policy early app
            (pick_best_window_by None None (Some {})) timeout w) = None
   \<and> fst (wait_for_stable_window app (pick_best_window_by None None (Some {})) timeout w) = None"
proof -
  have none: "pick_best_window_by None None (Some {}) v = None" for v
    by (simp add: pick_None score_empty_snapshot)
  have never: "fst (wait_for_stable_window_policy e app
      (pick_best_window_by None None (Some {})) timeout w) = None" for e
    by (rule wait_for_stable_window_policy_never) (simp add: none)
  show ?thesis
  proof (intro conjI)
    show "score None None (Some {}) w h = 0" by (rule score_empty_snapshot)
    show "pick_best_window_by None None (Some {}) w = None" by (rule none)
    show "fst (wait_for_stable_window_policy early app
        (pick_best_window_by None None (Some {})) timeout w) = None" by (rule never)
    show "fst (wait_for_stable_window app
        (pick_best_window_by None None (Some {})) timeout w) = None"
      unfolding wait_for_stable_window_def by (rule never)
  qed
qed

theorem relaxed_scan_of_empty_snapshot_witness:
  "pick_best_window_by None None (Some {}) two_windows = None
   \<and> list_top_windows (desktop []) = {}"
proof -
  have "list_top_windows (desktop []) = {}"
    by (simp add: list_top_windows_def EnumWindows_def desktop_def)
  moreover have "pick_best_window_by None None (Some {}) two_windows = None"
    using relaxed_scan_of_empty_snapshot_finds_nothing [of two_windows 1 True "\<lambda>w. w" 10]
    by (rule conjunct1 [OF conjunct2])
  ultimately show ?thesis by (rule conjI [rotated])
qed

section \<open>Properties of the headless core\<close>

lemma SetWindowPos_error:
  "SetWindowPos hwnd a x y cx cy flags w = (Inl e, w') \<Longrightarrow> e = Win32Error"
  by (auto simp: SetWindowPos_def Let_def split: if_splits)

lemma move_and_set_error:
  assumes "move_and_set app hwnd hmon mode w = (Inl e, w')"
  shows "e = Win32Error"
proof (cases "GetWindowPlacement w hwnd")
  case None
  with assms show ?thesis by (simp add: move_and_set_def)
next
  case (Some c)
  obtain l t r b where wa:
    "workarea_for_hmon (if c = SW_SHOWMAXIMIZED then sleep app 50 (ShowWindow hwnd SW_RESTORE w)
        else ShowWindow hwnd SW_SHOWNORMAL w) hmon = (l, t, r, b)"
    by (metis prod_cases4)
  obtain px py pw ph where pg: "park_geometry (l, t, r, b) = (px, py, pw, ph)"
    by (metis prod_cases4)
  from assms show ?thesis
    unfolding move_and_set_def Some option.case Let_def wa prod.case pg
    by (auto split: prod.splits sum.splits option.splits if_splits dest: SetWindowPos_error)
qed

lemma drift_poll_error:
  "drift_poll app hwnd hmon mode last_rect w = (Inl e, w') \<Longrightarrow> e = Win32Error"
  by (auto simp: drift_poll_def Let_def split: if_splits prod.splits sum.splits
      dest: move_and_set_error)

lemma ensure_loop_error:
  "ensure_loop app hwnd hmon mode until last_rect w = (Inl e, w') \<Longrightarrow> e = Win32Error"
proof (induction app hwnd hmon mode until last_rect w rule: ensure_loop.induct)
  case (1 app hwnd hmon_target mode until last_rect w)
  show ?case
  proof (cases "clock w < until \<and> hwnd \<noteq> 0 \<and> IsWindow w hwnd \<and> IsWindowVisible w hwnd")
    case False
    with "1.prems" show ?thesis
      by (subst (asm) ensure_loop.simps) (auto split: if_splits)
  next
    case True
    obtain a v where dp: "drift_poll app hwnd hmon_target mode last_rect w = (a, v)"
      by fastforce
    show ?thesis
    proof (cases a)
      case (Inl e')
      with "1.prems" True dp have "e = e'"
        by (subst (asm) ensure_loop.simps) simp
      with dp Inl drift_poll_error show ?thesis by blast
    next
      case (Inr b)
      with "1.prems" True dp
      have "ensure_loop app hwnd hmon_target mode until b (sleep app POLL_INTERVAL_MS v)
          = (Inl e, w')"
        by (subst (asm) ensure_loop.simps) simp
      moreover have "\<not> \<not> (hwnd \<noteq> 0 \<and> IsWindow w hwnd \<and> IsWindowVisible w hwnd)"
        using True by simp
      ultimately show ?thesis
        using "1.IH" [OF _ _ dp [symmetric] Inr] True by blast
    qed
  qed
qed

lemma ensure_on_target_error:
  "ensure_on_target app hwnd hmon mode seconds w = (Inl e, w') \<Longrightarrow> e = Win32Error"
  by (auto simp: ensure_on_target_def Let_def dest: ensure_loop_error)

lemma length_enum_monitors_sorted [simp]:
  "length (enum_monitors_sorted w) = length (monitors w)"
  by (simp add: enum_monitors_sorted_def)

text \<open>
  With a monitor index that is negative or not below the number of monitors,
  \<open>run_headless\<close> fails before it starts any process: it returns an error and leaves
  the state, and so the record of outward calls, as it was. The error is the one
  \<open>RuntimeError\<close> the code raises for everything, and the command line turns it into
  exit code 1.
\<close>

lemma run_headless_rejects_monitor_index:
  assumes "monitor_index < 0 \<or> int (length (monitors w)) \<le> monitor_index"
  shows "(run_headless app exe_path monitor_index mode observe_seconds w
            = (Inl NoMonitorsDetected, w)
          \<or> run_headless app exe_path monitor_index mode observe_seconds w
            = (Inl (MonitorIndexOutOfRange monitor_index (length (monitors w))), w))
     \<and> trace (snd (run_headless app exe_path monitor_index mode observe_seconds w)) = trace w
     \<and> (\<forall>p. arg_exe a = Some p \<and> p \<noteq> [] \<and> isfile w (abspath w p)
              \<and> arg_monitor a = Some monitor_index
            \<longrightarrow> main app (Namespace a) w = (Exit 1, w))"
proof -
  have r: "run_headless app e monitor_index m obs w = (Inl NoMonitorsDetected, w)
      \<or> run_headless app e monitor_index m obs w
           = (Inl (MonitorIndexOutOfRange monitor_index (length (monitors w))), w)" for e m obs
    using assms unfolding run_headless_def Let_def
    by (cases "enum_monitors_sorted w = []") auto
  have "main app (Namespace a) w = (Exit 1, w)"
    if "arg_exe a = Some p" "p \<noteq> []" "isfile w (abspath w p)" "arg_monitor a = Some monitor_index" for p
    using r [of "abspath w p" "arg_mode a" "arg_observe a"] that
    by (auto simp: main_def parse_args_def Let_def)
  with r [of exe_path mode observe_seconds] show ?thesis by auto
qed

definition notepad_args :: "int \<Rightarrow> args" where
  \<comment> \<open>the namespace of \<open>--exe C:/notepad.exe --monitor i\<close>, with the defaults of the rest\<close>
  "notepad_args i =
     \<lparr> arg_exe = Some ''C:/notepad.exe'', arg_monitor = Some i, arg_mode = ''maximize'',
       arg_observe = 4 \<rparr>"

lemma enum_monitors_sorted_desktop:
  "enum_monitors_sorted (desktop ws) = [(1, (0, 0, 1920, 1080)), (2, (1920, 0, 3840, 1080))]"
  by (simp add: enum_monitors_sorted_def desktop_def less_eq_prod_def)

text \<open>
  Claim C6 on the sample desktop, which has two monitors. The command line names an
  existing executable and monitor index 2, the number of monitors. No process is
  started and the state is left as it was, but the exit code is 1, the code of a runtime
  failure. The command lines that \<open>main\<close> itself refuses, one without \<open>--monitor\<close> and
  one whose path is no file, end with exit code 2, like those the parser refuses.
\<close>

theorem main_exit_code_for_monitor_index_out_of_range:
  "length (enum_monitors_sorted (desktop [])) = 2
   \<and> isfile (desktop []) (abspath (desktop []) ''C:/notepad.exe'')
   \<and> run_headless (\<lambda>w. w) ''C:/notepad.exe'' 2 ''maximize'' 4 (desktop [])
       = (Inl (MonitorIndexOutOfRange 2 2), desktop [])
   \<and> main (\<lambda>w. w) (Namespace (notepad_args 2)) (desktop []) = (Exit 1, desktop [])
   \<and> trace (desktop []) = []
   \<and> main (\<lambda>w. w) (Namespace ((notepad_args 2)\<lparr>arg_monitor := None\<rparr>)) (desktop [])
       = (Exit 2, desktop [])
   \<and> main (\<lambda>w. w) (Namespace ((notepad_args 2)\<lparr>arg_exe := Some ''C:/nothing.exe''\<rparr>))
         (desktop [])
       = (Exit 2, desktop [])
   \<and> main (\<lambda>w. w) Usage_error (desktop []) = (Exit 2, desktop [])"
proof -
  have r: "run_headless (\<lambda>w. w) ''C:/notepad.exe'' 2 ''maximize'' 4 (desktop [])
       = (Inl (MonitorIndexOutOfRange 2 2), desktop [])"
    by (simp add: run_headless_def enum_monitors_sorted_desktop Let_def)
  have f: "isfile (desktop []) (abspath (desktop []) ''C:/notepad.exe'')"
    "\<not> isfile (desktop []) (abspath (desktop []) ''C:/nothing.exe'')"
    "isfile (desktop []) ''C:/notepad.exe''" "\<not> isfile (desktop []) ''C:/nothing.exe''"
    "abspath (desktop []) p = p" for p
    by (simp_all add: desktop_def)
  have t: "trace (desktop []) = []"
    by (simp add: desktop_def)
  show ?thesis
    by (simp add: main_def parse_args_def notepad_args_def Let_def r f t
        enum_monitors_sorted_desktop)
qed

subsection \<open>The two acquisition attempts\<close>

definition primary_attempt ::
  "(os \<Rightarrow> os) \<Rightarrow> int set \<Rightarrow> int set \<Rightarrow> string \<Rightarrow> os \<Rightarrow> int option \<times> os" where
  \<comment> \<open>line 324: the attempt with the process-id set and the name, 45 seconds\<close>
  "primary_attempt app before pid_set exe_base w =
     wait_for_stable_window app
       (pick_best_window_by (Some pid_set) (Some exe_base) (Some before)) WAIT_TIMEOUT_SEC w"

definition relaxed_attempt :: "(os \<Rightarrow> os) \<Rightarrow> int set \<Rightarrow> os \<Rightarrow> int option \<times> os" where
  \<comment> \<open>line 328: the attempt with the snapshot alone, 10 seconds\<close>
  "relaxed_attempt app before w =
     wait_for_stable_window app (pick_best_window_by None None (Some before)) 10 w"

definition place_and_watch ::
  "(os \<Rightarrow> os) \<Rightarrow> int \<Rightarrow> int \<Rightarrow> string \<Rightarrow> int \<Rightarrow> os \<Rightarrow> (error + unit) \<times> os" where
  \<comment> \<open>lines 333 and 334\<close>
  "place_and_watch app hwnd hmon_target mode observe_seconds w =
     (case move_and_set app hwnd hmon_target mode w of
        (Inl e, w') \<Rightarrow> (Inl e, w')
      | (Inr u, w') \<Rightarrow> ensure_on_target app hwnd hmon_target mode observe_seconds w')"

lemma wait_for_stable_window_result:
  assumes "wait_for_stable_window app select_fn timeout w = (r, w')"
  shows "trace w' = trace w" and "clock w \<le> clock w'"
    and "r = None \<Longrightarrow> clock w + timeout * 1000 \<le> clock w'"
    and "r \<noteq> None \<Longrightarrow> truthy r \<and> select_fn w' = r \<and> clock w' < clock w + timeout * 1000"
  using wait_for_stable_window_policy_result [OF assms [unfolded wait_for_stable_window_def]]
  by blast+

lemma place_and_watch_error:
  "place_and_watch app hwnd hmon mode obs w = (Inl e, w') \<Longrightarrow> e = Win32Error"
  by (auto simp: place_and_watch_def split: prod.splits sum.splits
      dest: move_and_set_error ensure_on_target_error)

lemma truthy_result:
  assumes "r \<noteq> None \<Longrightarrow> truthy r \<and> A"
  shows "truthy r \<longleftrightarrow> r \<noteq> None"
  using assms by (cases r) (auto simp: truthy_def)

lemma acquire_and_place_cases:
  assumes p: "primary_attempt app before pid_set exe_base w = (r1, w1)"
    and q: "relaxed_attempt app before w1 = (r2, w2)"
  shows "acquire_and_place app before pid_set exe_base hmon_target mode observe_seconds w =
     (case r1 of
        Some h \<Rightarrow> place_and_watch app h hmon_target mode observe_seconds w1
      | None \<Rightarrow>
          (case r2 of
             Some h \<Rightarrow> place_and_watch app h hmon_target mode observe_seconds w2
           | None \<Rightarrow> (Inl NoStableWindow, w2)))"
proof -
  note p' = p [unfolded primary_attempt_def]
  note q' = q [unfolded relaxed_attempt_def]
  have t1: "truthy r1 \<longleftrightarrow> r1 \<noteq> None"
    by (rule truthy_result) (rule wait_for_stable_window_result(4) [OF p'])
  have t2: "truthy r2 \<longleftrightarrow> r2 \<noteq> None"
    by (rule truthy_result) (rule wait_for_stable_window_result(4) [OF q'])
  show ?thesis
  proof (cases r1)
    case (Some h)
    then have "truthy r1" using t1 by simp
    then show ?thesis
      unfolding acquire_and_place_def Let_def p' prod.case
      by (simp add: Some place_and_watch_def split: prod.splits sum.splits)
  next
    case None
    then have n1: "\<not> truthy r1" using t1 by simp
    show ?thesis
    proof (cases r2)
      case r2: None
      then have "\<not> truthy r2" using t2 by simp
      then show ?thesis
        unfolding acquire_and_place_def Let_def p' prod.case if_P [OF n1] q'
        by (simp add: None r2)
    next
      case r2: (Some h)
      then have "truthy r2" using t2 by simp
      then show ?thesis
        unfolding acquire_and_place_def Let_def p' prod.case if_P [OF n1] q'
        by (simp add: None r2 place_and_watch_def split: prod.splits sum.splits)
    qed
  qed
qed

lemma trace_discover_children [simp]:
  "trace (snd (discover_children app n parent pid_set w)) = trace w"
  by (induction n arbitrary: pid_set w) (simp_all add: Let_def)

lemma windows_discover_children_quiet [simp]:
  "windows (snd (discover_children (\<lambda>w. w) n parent pid_set w)) = windows w"
  by (induction n arbitrary: pid_set w) (simp_all add: Let_def sleep_def)

lemma Popen_ok:
  "Popen exe_path w = (Inr pid, w1) \<Longrightarrow> w1 = w\<lparr>trace := trace w @ [Spawn exe_path]\<rparr>"
  by (auto simp: Popen_def split: option.splits)

lemma run_headless_acquires:
  assumes "0 \<le> monitor_index" and "monitor_index < int (length (monitors w))"
    and "Popen exe_path w = (Inr pid, w1)" and "proc_exists w1 pid"
    and "discover_children app 15 pid {pid} w1 = (pid_set, w2)"
  shows "run_headless app exe_path monitor_index mode observe_seconds w
     = acquire_and_place app (list_top_windows w) pid_set (lower (basename exe_path))
         (fst (enum_monitors_sorted w ! nat monitor_index)) mode observe_seconds w2"
proof -
  have "enum_monitors_sorted w \<noteq> []"
  proof
    assume e: "enum_monitors_sorted w = []"
    have "length (monitors w) = 0"
      using length_enum_monitors_sorted [of w] unfolding e by simp
    with assms(1,2) show False by simp
  qed
  moreover have "\<not> (monitor_index < 0 \<or> int (length (enum_monitors_sorted w)) \<le> monitor_index)"
    using assms(1,2) by simp
  ultimately show ?thesis
    unfolding run_headless_def Let_def
    by (simp only: if_False assms(3,4,5) prod.case sum.case not_not if_True simp_thms)
qed

text \<open>
  Claim C7. The run has a valid monitor index and its launch succeeds; \<open>w2\<close> is the
  state in which acquisition begins, \<open>(r1, w3)\<close> is what the primary attempt returns
  and \<open>(r2, w4)\<close> what the relaxed attempt returns from the state the primary one left.
  When the primary attempt returns none, its 45 seconds have passed; the run then goes
  on with the relaxed attempt, which polls the scanner without a process-id set and
  without a name, for 10 seconds. If that returns none as well, the run fails with the
  error for "no stable main window", and the only outward call it has made is the
  launch: no placement and no watchdog call. If it returns a window, that window is
  placed and watched. When the primary attempt returns a window, that window is placed
  and watched from the state the primary attempt left. The run fails with that error
  exactly when both attempts return none.
\<close>

theorem run_headless_falls_back_once:
  assumes "0 \<le> monitor_index" and "monitor_index < int (length (monitors w))"
    and "Popen exe_path w = (Inr pid, w1)" and "proc_exists w1 pid"
    and "discover_children app 15 pid {pid} w1 = (pid_set, w2)"
    and "wait_for_stable_window app
           (pick_best_window_by (Some pid_set) (Some (lower (basename exe_path)))
              (Some (list_top_windows w))) WAIT_TIMEOUT_SEC w2 = (r1, w3)"
    and "wait_for_stable_window app
           (pick_best_window_by None None (Some (list_top_windows w))) 10 w3 = (r2, w4)"
  shows "(r1 = None \<longrightarrow>
            clock w2 + 45000 \<le> clock w3
            \<and> (r2 = None \<longrightarrow>
                 run_headless app exe_path monitor_index mode observe_seconds w
                   = (Inl NoStableWindow, w4)
                 \<and> clock w3 + 10000 \<le> clock w4
                 \<and> trace w4 = trace w @ [Spawn exe_path])
            \<and> (\<forall>h. r2 = Some h \<longrightarrow>
                 run_headless app exe_path monitor_index mode observe_seconds w
                   = place_and_watch app h (fst (enum_monitors_sorted w ! nat monitor_index))
                       mode observe_seconds w4))
     \<and> (\<forall>h. r1 = Some h \<longrightarrow>
            run_headless app exe_path monitor_index mode observe_seconds w
              = place_and_watch app h (fst (enum_monitors_sorted w ! nat monitor_index))
                  mode observe_seconds w3)
     \<and> (fst (run_headless app exe_path monitor_index mode observe_seconds w)
            = Inl NoStableWindow
          \<longleftrightarrow> r1 = None \<and> r2 = None)"
proof -
  let ?hmon = "fst (enum_monitors_sorted w ! nat monitor_index)"
  let ?run = "run_headless app exe_path monitor_index mode observe_seconds w"
  note P = wait_for_stable_window_result [OF assms(6)]
  note Q = wait_for_stable_window_result [OF assms(7)]
  have run: "?run =
     (case r1 of
        Some h \<Rightarrow> place_and_watch app h ?hmon mode observe_seconds w3
      | None \<Rightarrow>
          (case r2 of
             Some h \<Rightarrow> place_and_watch app h ?hmon mode observe_seconds w4
           | None \<Rightarrow> (Inl NoStableWindow, w4)))"
    unfolding run_headless_acquires [OF assms(1-5)]
    by (rule acquire_and_place_cases)
      (simp_all only: primary_attempt_def relaxed_attempt_def assms(6,7))
  have nsw: "fst (place_and_watch app h ?hmon mode observe_seconds v) \<noteq> Inl NoStableWindow"
    for h v
    using place_and_watch_error [of app h ?hmon mode observe_seconds v]
    by (cases "place_and_watch app h ?hmon mode observe_seconds v") auto
  have t45: "r1 = None \<Longrightarrow> clock w2 + 45000 \<le> clock w3"
    using P(3) by (simp add: WAIT_TIMEOUT_SEC_def)
  have t10: "r2 = None \<Longrightarrow> clock w3 + 10000 \<le> clock w4"
    using Q(3) by simp
  have "trace w2 = trace w1"
    using trace_discover_children [of app 15 pid "{pid}" w1] assms(5) by simp
  then have tr: "trace w4 = trace w @ [Spawn exe_path]"
    using P(1) Q(1) Popen_ok [OF assms(3)] by simp
  show ?thesis
  proof (cases r1)
    case (Some h)
    show ?thesis
      unfolding run Some option.case using nsw by simp
  next
    case None
    show ?thesis
    proof (cases r2)
      case r2: None
      show ?thesis
        unfolding run None r2 option.case
        using t45 [OF None] t10 [OF r2] tr by simp
    next
      case r2: (Some h)
      show ?thesis
        unfolding run None r2 option.case
        using t45 [OF None] nsw by simp
    qed
  qed
qed

lemma wait_early_invariant_none:
  assumes "\<And>v. P v \<Longrightarrow> \<not> truthy (select_fn v)"
    and "\<And>v. P v \<Longrightarrow> P (sleep app POLL_INTERVAL_MS v)"
    and "P w"
  shows "fst (wait_early app select_fn deadline w) = None"
  using assms
proof (induction app select_fn deadline w rule: wait_early.induct)
  case (1 app select_fn deadline w)
  show ?case
  proof (cases "clock w < deadline")
    case False
    then show ?thesis by (subst wait_early.simps) simp
  next
    case True
    have f: "\<not> truthy (select_fn w)"
      by (rule "1.prems"(1)) (rule "1.prems"(3))
    have n: "P (sleep app POLL_INTERVAL_MS w)"
      by (rule "1.prems"(2)) (rule "1.prems"(3))
    have eq: "wait_early app select_fn deadline w =
        wait_early app select_fn deadline (sleep app POLL_INTERVAL_MS w)"
      using True f by (subst wait_early.simps) (simp add: Let_def)
    show ?thesis
      unfolding eq by (rule "1.IH" [OF True refl f "1.prems"(1) "1.prems"(2) n])
  qed
qed

lemma pick_best_window_by_no_windows:
  "windows w = [] \<Longrightarrow> pick_best_window_by ps e hs w = None"
  by (simp add: pick_None EnumWindows_def)

lemma quiet_empty_desktop_attempt:
  assumes "windows w = []"
  shows "fst (wait_for_stable_window (\<lambda>w. w) (pick_best_window_by ps e hs) timeout w) = None"
proof -
  have "fst (wait_early (\<lambda>w. w) (pick_best_window_by ps e hs) (clock w + timeout * 1000) w)
      = None"
  proof (rule wait_early_invariant_none [where P = "\<lambda>v. windows v = []"])
    show "\<not> truthy (pick_best_window_by ps e hs v)" if "windows v = []" for v
      using that by (simp add: pick_best_window_by_no_windows)
    show "windows (sleep (\<lambda>w. w) POLL_INTERVAL_MS v) = []" if "windows v = []" for v
      using that by (simp add: sleep_def)
    show "windows w = []" by (rule assms)
  qed
  then show ?thesis
    by (simp add: wait_for_stable_window_def wait_for_stable_window_policy_def Let_def
        EARLY_MOVE_ON_DETECT_def)
qed


lemma empty_snapshot_attempt:
  "fst (wait_for_stable_window app (pick_best_window_by None None (Some {})) timeout w) = None"
proof -
  have "pick_best_window_by None None (Some {}) v = None" for v
    by (simp add: pick_None score_empty_snapshot)
  then show ?thesis
    unfolding wait_for_stable_window_def
    by (intro wait_for_stable_window_policy_never) simp
qed

theorem run_headless_falls_back_once_witness:
  "fst (run_headless (\<lambda>w. w) ''C:/notepad.exe'' 1 ''maximize'' 4 (desktop []))
     = Inl NoStableWindow
   \<and> trace (snd (run_headless (\<lambda>w. w) ''C:/notepad.exe'' 1 ''maximize'' 4 (desktop [])))
       = [Spawn ''C:/notepad.exe'']
   \<and> 55750 \<le> clock (snd (run_headless (\<lambda>w. w) ''C:/notepad.exe'' 1 ''maximize'' 4
                             (desktop [])))"
proof -
  define w1 where "w1 = (desktop [])\<lparr>trace := [Spawn ''C:/notepad.exe'']\<rparr>"
  define D where "D = discover_children (\<lambda>w. w) 15 10 {10} w1"
  define P where "P = wait_for_stable_window (\<lambda>w. w)
      (pick_best_window_by (Some (fst D)) (Some (lower (basename ''C:/notepad.exe'')))
         (Some (list_top_windows (desktop [])))) WAIT_TIMEOUT_SEC (snd D)"
  define R where "R = wait_for_stable_window (\<lambda>w. w)
      (pick_best_window_by None None (Some (list_top_windows (desktop [])))) 10 (snd P)"
  have i: "(0::int) \<le> 1" "1 < int (length (monitors (desktop [])))"
    by (simp_all add: desktop_def)
  have l: "Popen ''C:/notepad.exe'' (desktop []) = (Inr 10, w1)" "proc_exists w1 10"
    by (simp_all add: Popen_def desktop_def w1_def)
  have d: "discover_children (\<lambda>w. w) 15 10 {10} w1 = (fst D, snd D)"
    by (simp add: D_def)
  have p: "wait_for_stable_window (\<lambda>w. w)
      (pick_best_window_by (Some (fst D)) (Some (lower (basename ''C:/notepad.exe'')))
         (Some (list_top_windows (desktop [])))) WAIT_TIMEOUT_SEC (snd D) = (fst P, snd P)"
    by (simp add: P_def)
  have r: "wait_for_stable_window (\<lambda>w. w)
      (pick_best_window_by None None (Some (list_top_windows (desktop [])))) 10 (snd P)
        = (fst R, snd R)"
    by (simp add: R_def)
  have "windows (snd D) = []"
    unfolding D_def by (simp add: w1_def desktop_def)
  then have p0: "fst P = None"
    unfolding P_def by (rule quiet_empty_desktop_attempt)
  have "list_top_windows (desktop []) = {}"
    by (simp add: list_top_windows_def EnumWindows_def desktop_def)
  then have r0: "fst R = None"
    unfolding R_def by (simp add: empty_snapshot_attempt)
  have c: "clock (snd D) = 750"
    unfolding D_def
    by (simp add: eval_nat_numeral Let_def sleep_def w1_def desktop_def)
  note T = run_headless_falls_back_once [OF i l d p r, of "''maximize''" 4]
  from T p0 r0
  have "run_headless (\<lambda>w. w) ''C:/notepad.exe'' 1 ''maximize'' 4 (desktop [])
          = (Inl NoStableWindow, snd R)
      \<and> clock (snd D) + 45000 \<le> clock (snd P)
      \<and> clock (snd P) + 10000 \<le> clock (snd R)
      \<and> trace (snd R) = trace (desktop []) @ [Spawn ''C:/notepad.exe'']"
    by (simp only: simp_thms)
  then show ?thesis
    using c by (simp add: desktop_def)
qed

section \<open>Properties of the window calls\<close>

lemma find_implied_filter:
  "(\<And>x. Q x \<Longrightarrow> P x) \<Longrightarrow> find Q (filter P xs) = find Q xs"
  by (induction xs) auto

lemma find_excluded_filter:
  "(\<And>x. Q x \<Longrightarrow> \<not> P x) \<Longrightarrow> find Q (filter P xs) = None"
  by (induction xs) auto

lemma find_append_cases:
  "find Q (xs @ ys) = (case find Q xs of None \<Rightarrow> find Q ys | Some x \<Rightarrow> Some x)"
  by (induction xs) auto

lemma find_map_update:
  assumes "\<And>x. w_hwnd (f x) = w_hwnd x"
  shows "find (\<lambda>x. w_hwnd x = h') (map (\<lambda>x. if w_hwnd x = h then f x else x) xs) =
     (if h' = h then map_option f (find (\<lambda>x. w_hwnd x = h) xs)
      else find (\<lambda>x. w_hwnd x = h') xs)"
  using assms by (induction xs) auto

lemma find_window_update_window:
  assumes "\<And>x. w_hwnd (f x) = w_hwnd x"
  shows "find_window (update_window h f w) h' =
     (if h' = h then map_option f (find_window w h) else find_window w h')"
  unfolding find_window_def update_window_def
  using find_map_update [OF assms, of h' h "windows w"] by simp

lemma find_window_raise_window [simp]:
  "find_window (raise_window h w) h' = find_window w h'"
proof (cases "h' = h")
  case True
  have "find (\<lambda>x. w_hwnd x = h) (filter (\<lambda>x. w_hwnd x \<noteq> h) (windows w)) = None"
    by (rule find_excluded_filter) simp
  moreover have "find (\<lambda>x. w_hwnd x = h) (filter (\<lambda>x. w_hwnd x = h) (windows w))
      = find (\<lambda>x. w_hwnd x = h) (windows w)"
    by (rule find_implied_filter) simp
  ultimately show ?thesis
    by (simp add: find_window_def raise_window_def find_append_cases True split: option.splits)
next
  case False
  have "find (\<lambda>x. w_hwnd x = h') (filter (\<lambda>x. w_hwnd x = h) (windows w)) = None"
    by (rule find_excluded_filter) (use False in simp)
  moreover have "find (\<lambda>x. w_hwnd x = h') (filter (\<lambda>x. w_hwnd x \<noteq> h) (windows w))
      = find (\<lambda>x. w_hwnd x = h') (windows w)"
    by (rule find_implied_filter) (use False in simp)
  ultimately show ?thesis
    by (simp add: find_window_def raise_window_def find_append_cases)
qed

lemma find_window_fields [simp]:
  "find_window (w\<lparr>trace := t\<rparr>) h = find_window w h"
  "find_window (w\<lparr>foreground := f\<rparr>) h = find_window w h"
  "find_window (w\<lparr>clock := c\<rparr>) h = find_window w h"
  by (simp_all add: find_window_def)

lemma find_window_sleep_quiet [simp]:
  "find_window (sleep (\<lambda>w. w) ms w) h = find_window w h"
  by (simp add: sleep_def)

lemma w_hwnd_show_window [simp]: "w_hwnd (show_window w cmd x) = w_hwnd x"
  by (simp add: show_window_def)

definition moved :: "RECT \<Rightarrow> window \<Rightarrow> window" where
  \<comment> \<open>what \<open>SetWindowPos\<close> does to the record of the window\<close>
  "moved r v = v\<lparr>w_rect := r, w_normal := (if w_show v = SW_SHOWNORMAL then r else w_normal v)\<rparr>"

lemma w_hwnd_moved [simp]: "w_hwnd (moved r v) = w_hwnd v"
  by (simp add: moved_def)

lemma find_window_ShowWindow:
  "find_window (ShowWindow h cmd w) h' =
     (if h' = h \<and> (cmd = SW_SHOWNORMAL \<or> cmd = SW_RESTORE \<or> cmd = SW_MAXIMIZE)
      then map_option (show_window w cmd) (find_window w h)
      else find_window w h')"
  by (auto simp: ShowWindow_def Let_def activate_def IsWindow_def
      find_window_update_window)

lemma find_window_SetWindowPos:
  "find_window (snd (SetWindowPos h a x y cx cy flags w)) h' =
     (if h' = h then map_option (moved (x, y, x + cx, y + cy)) (find_window w h)
      else find_window w h')"
proof -
  have m: "(\<lambda>v. v\<lparr>w_rect := r, w_normal := (if w_show v = SW_SHOWNORMAL then r else w_normal v)\<rparr>)
      = moved r" for r
    by (simp add: moved_def fun_eq_iff)
  show ?thesis
    by (auto simp: SetWindowPos_def Let_def IsWindow_def m find_window_update_window)
qed

lemma SetWindowPos_ok:
  "fst (SetWindowPos h a x y cx cy flags w) = (if IsWindow w h then Inr () else Inl Win32Error)"
  by (simp add: SetWindowPos_def Let_def)

lemma IsWindow_ShowWindow [simp]: "IsWindow (ShowWindow h cmd w) h' = IsWindow w h'"
  by (auto simp: IsWindow_def find_window_ShowWindow)

lemma IsWindow_SetWindowPos [simp]:
  "IsWindow (snd (SetWindowPos h a x y cx cy flags w)) h' = IsWindow w h'"
  by (auto simp: IsWindow_def find_window_SetWindowPos)

lemma IsWindow_sleep_quiet [simp]: "IsWindow (sleep (\<lambda>w. w) ms w) h = IsWindow w h"
  by (simp add: IsWindow_def)

text \<open>The answers of the operating system are not touched by the window calls.\<close>

definition same_system :: "os \<Rightarrow> os \<Rightarrow> bool" where
  "same_system w' w \<longleftrightarrow>
     w' = w\<lparr>clock := clock w', windows := windows w', foreground := foreground w',
            trace := trace w'\<rparr>"

lemma same_system_refl [simp]: "same_system w w"
  by (simp add: same_system_def)

lemma same_system_trans: "same_system w'' w' \<Longrightarrow> same_system w' w \<Longrightarrow> same_system w'' w"
  unfolding same_system_def by (cases w, cases w', cases w'') simp

lemma same_system_ShowWindow [simp]: "same_system (ShowWindow h cmd w) w"
  by (simp add: same_system_def ShowWindow_def Let_def activate_def raise_window_def
      update_window_def)

lemma same_system_SetWindowPos [simp]:
  "same_system (snd (SetWindowPos h a x y cx cy flags w)) w"
  by (simp add: same_system_def SetWindowPos_def Let_def raise_window_def update_window_def)

lemma same_system_sleep_quiet [simp]: "same_system (sleep (\<lambda>w. w) ms w) w"
  by (simp add: same_system_def sleep_def)

lemma same_system_fields:
  assumes "same_system w' w"
  shows "workarea_for_hmon w' = workarea_for_hmon w"
    and "maximized_rect w' = maximized_rect w"
    and "monitor_from_rect w' = monitor_from_rect w"
    and "monitors w' = monitors w"
proof -
  from assms have e: "w' = w\<lparr>clock := clock w', windows := windows w',
      foreground := foreground w', trace := trace w'\<rparr>"
    by (simp add: same_system_def)
  have "monitor_work w' = monitor_work w" "system_work w' = system_work w"
    "screen_size w' = screen_size w"
    by (subst e, simp)+
  then show "workarea_for_hmon w' = workarea_for_hmon w"
    by (simp add: workarea_for_hmon_def fun_eq_iff split: option.splits)
  show "maximized_rect w' = maximized_rect w" by (subst e) simp
  show "monitor_from_rect w' = monitor_from_rect w" by (subst e) simp
  show "monitors w' = monitors w" by (subst e) simp
qed

subsection \<open>Z order and the active window\<close>

definition raised :: "int \<Rightarrow> os \<Rightarrow> os \<Rightarrow> bool" where
  \<comment> \<open>from \<open>w\<close> to \<open>w'\<close> the window came to the top and became active; the other windows
      kept their records and their order\<close>
  "raised hwnd w' w \<longleftrightarrow>
     filter (\<lambda>v. w_hwnd v \<noteq> hwnd) (windows w') = filter (\<lambda>v. w_hwnd v \<noteq> hwnd) (windows w)
     \<and> foreground w' = Some hwnd
     \<and> (\<exists>v vs. windows w' = v # vs \<and> w_hwnd v = hwnd)"

lemma filter_other_update:
  assumes "\<And>x. w_hwnd (f x) = w_hwnd x"
  shows "filter (\<lambda>v. w_hwnd v \<noteq> h) (map (\<lambda>x. if w_hwnd x = h then f x else x) xs)
     = filter (\<lambda>v. w_hwnd v \<noteq> h) xs"
  using assms by (induction xs) auto

lemma filter_same_update_nonempty:
  assumes "\<And>x. w_hwnd (f x) = w_hwnd x" and "find (\<lambda>x. w_hwnd x = h) xs \<noteq> None"
  shows "\<exists>v vs. filter (\<lambda>v. w_hwnd v = h) (map (\<lambda>x. if w_hwnd x = h then f x else x) xs) = v # vs
           \<and> w_hwnd v = h"
  using assms by (induction xs) (auto split: if_splits)

lemma head_update:
  assumes "\<And>x. w_hwnd (f x) = w_hwnd x" and "xs = v # vs" and "w_hwnd v = h"
  shows "\<exists>v' vs'. map (\<lambda>x. if w_hwnd x = h then f x else x) xs = v' # vs' \<and> w_hwnd v' = h"
  using assms by auto

lemma raised_ShowWindow:
  assumes "IsWindow w h" and "cmd = SW_SHOWNORMAL \<or> cmd = SW_RESTORE \<or> cmd = SW_MAXIMIZE"
  shows "raised h (ShowWindow h cmd w) w"
proof -
  let ?g = "\<lambda>x. if w_hwnd x = h then show_window w cmd x else x"
  have ws: "windows (ShowWindow h cmd w) =
      filter (\<lambda>x. w_hwnd x = h) (map ?g (windows w))
      @ filter (\<lambda>x. w_hwnd x \<noteq> h) (map ?g (windows w))"
    using assms by (simp add: ShowWindow_def Let_def activate_def raise_window_def
        update_window_def)
  have fg: "foreground (ShowWindow h cmd w) = Some h"
    using assms by (simp add: ShowWindow_def Let_def activate_def raise_window_def
        update_window_def)
  have o: "filter (\<lambda>v. w_hwnd v \<noteq> h) (map ?g (windows w)) = filter (\<lambda>v. w_hwnd v \<noteq> h) (windows w)"
    by (rule filter_other_update) simp
  obtain v vs where hd: "filter (\<lambda>v. w_hwnd v = h) (map ?g (windows w)) = v # vs" "w_hwnd v = h"
    using filter_same_update_nonempty [of "show_window w cmd" h "windows w"] assms(1)
    by (auto simp: IsWindow_def find_window_def)
  have "filter (\<lambda>v. w_hwnd v \<noteq> h) (windows (ShowWindow h cmd w))
      = filter (\<lambda>v. w_hwnd v \<noteq> h) (windows w)"
    unfolding ws by (simp add: o)
  moreover have "\<exists>v vs. windows (ShowWindow h cmd w) = v # vs \<and> w_hwnd v = h"
    unfolding ws hd using hd(2) by simp
  ultimately show ?thesis using fg by (simp add: raised_def)
qed

lemma raised_IsWindow: "raised h w' w \<Longrightarrow> IsWindow w' h"
  by (auto simp: raised_def IsWindow_def find_window_def)

lemma swp_flags_bits:
  "swp_flags AND SWP_NOZORDER \<noteq> 0" "swp_flags AND SWP_NOACTIVATE \<noteq> 0"
  by (simp_all add: swp_flags_def SWP_NOZORDER_def SWP_NOACTIVATE_def SWP_FRAMECHANGED_def)

lemma raised_SetWindowPos:
  assumes "raised h w' w"
  shows "raised h (snd (SetWindowPos h a x y cx cy swp_flags w')) w"
proof -
  let ?g = "\<lambda>v. if w_hwnd v = h then moved (x, y, x + cx, y + cy) v else v"
  have m: "(\<lambda>v. v\<lparr>w_rect := r, w_normal := (if w_show v = SW_SHOWNORMAL then r else w_normal v)\<rparr>)
      = moved r" for r
    by (simp add: moved_def fun_eq_iff)
  have ws: "windows (snd (SetWindowPos h a x y cx cy swp_flags w')) = map ?g (windows w')"
    and fg: "foreground (snd (SetWindowPos h a x y cx cy swp_flags w')) = foreground w'"
    using raised_IsWindow [OF assms]
    by (simp_all add: SetWindowPos_def Let_def swp_flags_bits update_window_def m)
  have "filter (\<lambda>v. w_hwnd v \<noteq> h) (map ?g (windows w')) = filter (\<lambda>v. w_hwnd v \<noteq> h) (windows w')"
    by (rule filter_other_update) simp
  moreover from assms obtain v vs where "windows w' = v # vs" "w_hwnd v = h"
    by (auto simp: raised_def)
  then have "\<exists>v' vs'. map ?g (windows w') = v' # vs' \<and> w_hwnd v' = h"
    by auto
  ultimately show ?thesis using assms unfolding raised_def ws fg by simp
qed

lemma raised_sleep_quiet: "raised h w' w \<Longrightarrow> raised h (sleep (\<lambda>w. w) ms w') w"
  by (simp add: raised_def sleep_def)

lemma raised_trans_ShowWindow:
  assumes "raised h w' w" and "cmd = SW_SHOWNORMAL \<or> cmd = SW_RESTORE \<or> cmd = SW_MAXIMIZE"
  shows "raised h (ShowWindow h cmd w') w"
  using raised_ShowWindow [OF raised_IsWindow [OF assms(1)] assms(2)] assms(1)
  by (simp add: raised_def)

section \<open>Properties of placement\<close>

definition placed :: "os \<Rightarrow> int \<Rightarrow> string \<Rightarrow> window \<Rightarrow> window" where
  \<comment> \<open>the record of the placed window after \<open>move_and_set\<close> on a quiet desktop\<close>
  "placed w hmon mode x =
     (let x1 = show_window w
                 (if w_show x = SW_SHOWMAXIMIZED then SW_RESTORE else SW_SHOWNORMAL) x
      in case workarea_for_hmon w hmon of (wa_l, wa_t, wa_r, wa_b) \<Rightarrow>
           if mode = ''normal'' then
             (case w_rect x1 of (l, t, r, b) \<Rightarrow>
                moved (wa_l + 20, wa_t + 20,
                       wa_l + 20 + max 300 (min (r - l) (wa_r - wa_l - 40)),
                       wa_t + 20 + max 200 (min (b - t) (wa_b - wa_t - 40))) x1)
           else
             (case park_geometry (wa_l, wa_t, wa_r, wa_b) of (px, py, pw, ph) \<Rightarrow>
                let x2 = moved (px, py, px + pw, py + ph) x1
                in if mode = ''maximize'' then show_window w SW_MAXIMIZE x2
                   else moved (wa_l, wa_t, wa_l + (wa_r - wa_l), wa_t + (wa_b - wa_t)) x2))"

lemma show_window_same_system:
  "same_system w' w \<Longrightarrow> show_window w' cmd x = show_window w cmd x"
  by (simp add: show_window_def same_system_fields)

lemma placed_same_system:
  assumes "same_system w' w"
  shows "placed w' hmon mode x = placed w hmon mode x"
proof -
  have sw: "show_window w' = show_window w"
    by (rule ext)+ (rule show_window_same_system [OF assms])
  show ?thesis
    unfolding placed_def sw same_system_fields(1) [OF assms] by (rule refl)
qed

lemma rect_find_window: "find_window w h = Some x \<Longrightarrow> rect w h = Some (w_rect x)"
  by (simp add: rect_def GetWindowRect_def)

lemma move_and_set_quiet:
  assumes x: "find_window w hwnd = Some x"
  shows "\<exists>w'. move_and_set (\<lambda>w. w) hwnd hmon mode w = (Inr (), w')
           \<and> find_window w' hwnd = Some (placed w hmon mode x)
           \<and> same_system w' w
           \<and> (\<forall>h'. h' \<noteq> hwnd \<longrightarrow> find_window w' h' = find_window w h')
           \<and> raised hwnd w' w"
proof -
  define cmd where "cmd = (if w_show x = SW_SHOWMAXIMIZED then SW_RESTORE else SW_SHOWNORMAL)"
  define w1 where "w1 = (if w_show x = SW_SHOWMAXIMIZED
      then sleep (\<lambda>w. w) 50 (ShowWindow hwnd SW_RESTORE w)
      else ShowWindow hwnd SW_SHOWNORMAL w)"
  define x1 where "x1 = show_window w cmd x"
  have gp: "GetWindowPlacement w hwnd = Some (w_show x)"
    using x by (simp add: GetWindowPlacement_def)
  have f1: "find_window w1 hwnd = Some x1"
    using x by (simp add: w1_def x1_def cmd_def find_window_ShowWindow)
  have o1: "find_window w1 h' = find_window w h'" if "h' \<noteq> hwnd" for h'
    using that by (simp add: w1_def find_window_ShowWindow)
  have s1: "same_system w1 w"
    unfolding w1_def
    by (auto intro: same_system_trans [OF same_system_sleep_quiet same_system_ShowWindow])
  have i1: "IsWindow w1 hwnd" using f1 by (simp add: IsWindow_def)
  have i0: "IsWindow w hwnd" using x by (simp add: IsWindow_def)
  have rz1: "raised hwnd w1 w"
    unfolding w1_def
    by (auto intro!: raised_sleep_quiet raised_ShowWindow [OF i0])
  obtain wa_l wa_t wa_r wa_b where wa: "workarea_for_hmon w hmon = (wa_l, wa_t, wa_r, wa_b)"
    by (metis prod_cases4)
  have wa1: "workarea_for_hmon w1 hmon = (wa_l, wa_t, wa_r, wa_b)"
    using same_system_fields(1) [OF s1] wa by simp
  have ms: "move_and_set (\<lambda>w. w) hwnd hmon mode w =
      (if mode = ''normal'' then
         (let (cur_w, cur_h) =
                (case rect w1 hwnd of
                   None \<Rightarrow> (1000, 700)
                 | Some (l, t, r, b) \<Rightarrow>
                     (max 300 (min (r - l) (wa_r - wa_l - 40)),
                      max 200 (min (b - t) (wa_b - wa_t - 40))))
          in SetWindowPos hwnd None (wa_l + 20) (wa_t + 20) cur_w cur_h swp_flags w1)
       else
         (case park_geometry (wa_l, wa_t, wa_r, wa_b) of
            (park_x, park_y, park_w, park_h) \<Rightarrow>
              (case SetWindowPos hwnd None park_x park_y park_w park_h swp_flags w1 of
                 (Inl e, w2) \<Rightarrow> (Inl e, w2)
               | (Inr u, w2) \<Rightarrow>
                   if mode = ''maximize'' then
                     (Inr (), ShowWindow hwnd SW_MAXIMIZE (sleep (\<lambda>w. w) 20 w2))
                   else
                     SetWindowPos hwnd None wa_l wa_t (wa_r - wa_l) (wa_b - wa_t) swp_flags
                       (sleep (\<lambda>w. w) 20 w2))))"
    unfolding move_and_set_def gp option.case Let_def w1_def [symmetric] wa1 prod.case
    by (rule refl)
  show ?thesis
  proof (cases "mode = ''normal''")
    case True
    obtain l t r b where r1: "w_rect x1 = (l, t, r, b)" by (metis prod_cases4)
    define S where "S = SetWindowPos hwnd None (wa_l + 20) (wa_t + 20)
        (max 300 (min (r - l) (wa_r - wa_l - 40))) (max 200 (min (b - t) (wa_b - wa_t - 40)))
        swp_flags w1"
    have m: "move_and_set (\<lambda>w. w) hwnd hmon mode w = S"
      unfolding ms S_def using True rect_find_window [OF f1] r1 by simp
    have "fst S = Inr ()" using i1 by (simp add: S_def SetWindowPos_ok)
    then have e: "S = (Inr (), snd S)" by (metis prod.collapse)
    have pl: "placed w hmon mode x = moved (wa_l + 20, wa_t + 20,
        wa_l + 20 + max 300 (min (r - l) (wa_r - wa_l - 40)),
        wa_t + 20 + max 200 (min (b - t) (wa_b - wa_t - 40))) x1"
      unfolding placed_def cmd_def [symmetric] x1_def [symmetric] Let_def wa prod.case
      using True r1 by simp
    have a: "find_window (snd S) hwnd = Some (placed w hmon mode x)"
      unfolding pl S_def by (simp add: find_window_SetWindowPos f1)
    have b: "same_system (snd S) w"
      unfolding S_def by (rule same_system_trans [OF same_system_SetWindowPos s1])
    have c: "\<forall>h'. h' \<noteq> hwnd \<longrightarrow> find_window (snd S) h' = find_window w h'"
      unfolding S_def by (simp add: find_window_SetWindowPos o1)
    have d: "raised hwnd (snd S) w"
      unfolding S_def by (rule raised_SetWindowPos [OF rz1])
    show ?thesis
      by (rule exI [of _ "snd S"]) (use m e a b c d in simp)
  next
    case False
    obtain px py pw ph where pg: "park_geometry (wa_l, wa_t, wa_r, wa_b) = (px, py, pw, ph)"
      by (metis prod_cases4)
    define P where "P = SetWindowPos hwnd None px py pw ph swp_flags w1"
    define x2 where "x2 = moved (px, py, px + pw, py + ph) x1"
    define w3 where "w3 = sleep (\<lambda>w. w) 20 (snd P)"
    have "fst P = Inr ()" using i1 by (simp add: P_def SetWindowPos_ok)
    then have eP: "P = (Inr (), snd P)" by (metis prod.collapse)
    have f3: "find_window w3 hwnd = Some x2"
      by (simp add: w3_def P_def x2_def find_window_SetWindowPos f1)
    have o3: "find_window w3 h' = find_window w h'" if "h' \<noteq> hwnd" for h'
      using that by (simp add: w3_def P_def find_window_SetWindowPos o1)
    have s3: "same_system w3 w"
      unfolding w3_def P_def
      by (rule same_system_trans [OF same_system_sleep_quiet
            same_system_trans [OF same_system_SetWindowPos s1]])
    have i3: "IsWindow w3 hwnd" using f3 by (simp add: IsWindow_def)
    have rz3: "raised hwnd w3 w"
      unfolding w3_def P_def by (rule raised_sleep_quiet [OF raised_SetWindowPos [OF rz1]])
    have ms2: "move_and_set (\<lambda>w. w) hwnd hmon mode w =
        (if mode = ''maximize'' then (Inr (), ShowWindow hwnd SW_MAXIMIZE w3)
         else SetWindowPos hwnd None wa_l wa_t (wa_r - wa_l) (wa_b - wa_t) swp_flags w3)"
      unfolding ms pg prod.case P_def [symmetric] w3_def
      by (subst eP) (use False in simp)
    show ?thesis
    proof (cases "mode = ''maximize''")
      case True
      define M where "M = ShowWindow hwnd SW_MAXIMIZE w3"
      have m: "move_and_set (\<lambda>w. w) hwnd hmon mode w = (Inr (), M)"
        unfolding ms2 M_def using True by simp
      have pl: "placed w hmon mode x = show_window w SW_MAXIMIZE x2"
        unfolding placed_def cmd_def [symmetric] x1_def [symmetric] Let_def wa prod.case pg
          x2_def [symmetric]
        using True False by simp
      have a: "find_window M hwnd = Some (placed w hmon mode x)"
        unfolding pl M_def
        by (simp add: find_window_ShowWindow f3 show_window_same_system [OF s3])
      have b: "same_system M w"
        unfolding M_def by (rule same_system_trans [OF same_system_ShowWindow s3])
      have c: "\<forall>h'. h' \<noteq> hwnd \<longrightarrow> find_window M h' = find_window w h'"
        unfolding M_def by (simp add: find_window_ShowWindow o3)
      have d: "raised hwnd M w"
        unfolding M_def by (rule raised_trans_ShowWindow [OF rz3]) simp
      show ?thesis
        by (rule exI [of _ M]) (use m a b c d in simp)
    next
      case nm: False
      define F where
        "F = SetWindowPos hwnd None wa_l wa_t (wa_r - wa_l) (wa_b - wa_t) swp_flags w3"
      have m: "move_and_set (\<lambda>w. w) hwnd hmon mode w = F"
        unfolding ms2 F_def using nm by simp
      have "fst F = Inr ()" using i3 by (simp add: F_def SetWindowPos_ok)
      then have e: "F = (Inr (), snd F)" by (metis prod.collapse)
      have pl: "placed w hmon mode x =
          moved (wa_l, wa_t, wa_l + (wa_r - wa_l), wa_t + (wa_b - wa_t)) x2"
        unfolding placed_def cmd_def [symmetric] x1_def [symmetric] Let_def wa prod.case pg
          x2_def [symmetric]
        using nm False by simp
      have a: "find_window (snd F) hwnd = Some (placed w hmon mode x)"
        unfolding pl F_def by (simp add: find_window_SetWindowPos f3)
      have b: "same_system (snd F) w"
        unfolding F_def by (rule same_system_trans [OF same_system_SetWindowPos s3])
      have c: "\<forall>h'. h' \<noteq> hwnd \<longrightarrow> find_window (snd F) h' = find_window w h'"
        unfolding F_def by (simp add: find_window_SetWindowPos o3)
      have d: "raised hwnd (snd F) w"
        unfolding F_def by (rule raised_SetWindowPos [OF rz3])
      show ?thesis
        by (rule exI [of _ "snd F"]) (use m e a b c d in simp)
    qed
  qed
qed

lemma clamp_idem: "max (a::int) (min (max a (min c d)) d) = max a (min c d)"
  by (simp add: max_def min_def)

lemma show_window_restore_facts:
  assumes "cmd = SW_SHOWNORMAL \<or> cmd = SW_RESTORE"
  shows "w_show (show_window w cmd x) = SW_SHOWNORMAL"
    and "w_rect (show_window w cmd x) = (if w_show x = SW_SHOWNORMAL then w_rect x else w_normal x)"
    and "w_normal (show_window w cmd x) = w_normal x"
  using assms by (auto simp: show_window_def)

lemma show_window_maximize_facts:
  "w_show (show_window w SW_MAXIMIZE x) = SW_SHOWMAXIMIZED"
  "w_rect (show_window w SW_MAXIMIZE x) = maximized_rect w (monitor_from_rect w (Some (w_rect x)))"
  "w_normal (show_window w SW_MAXIMIZE x) = w_normal x"
  by (simp_all add: show_window_def SW_MAXIMIZE_def SW_SHOWNORMAL_def SW_RESTORE_def)

lemma moved_facts:
  "w_show (moved r v) = w_show v"
  "w_rect (moved r v) = r"
  "w_normal (moved r v) = (if w_show v = SW_SHOWNORMAL then r else w_normal v)"
  by (simp_all add: moved_def)

lemma restore_cmd:
  "(if s = SW_SHOWMAXIMIZED then SW_RESTORE else SW_SHOWNORMAL) = SW_SHOWNORMAL
   \<or> (if s = SW_SHOWMAXIMIZED then SW_RESTORE else SW_SHOWNORMAL) = SW_RESTORE"
  by simp

lemma w_rect_placed_twice:
  "w_rect (placed w hmon mode (placed w hmon mode x)) = w_rect (placed w hmon mode x)"
proof -
  obtain wa_l wa_t wa_r wa_b where wa: "workarea_for_hmon w hmon = (wa_l, wa_t, wa_r, wa_b)"
    by (metis prod_cases4)
  obtain px py pw ph where pg: "park_geometry (wa_l, wa_t, wa_r, wa_b) = (px, py, pw, ph)"
    by (metis prod_cases4)
  define c :: "window \<Rightarrow> int" where
    "c = (\<lambda>v. if w_show v = SW_SHOWMAXIMIZED then SW_RESTORE else SW_SHOWNORMAL)"
  have c: "c v = SW_SHOWNORMAL \<or> c v = SW_RESTORE" for v
    by (simp add: c_def)
  note R = show_window_restore_facts [OF c]
  have ne: "SW_SHOWNORMAL \<noteq> SW_SHOWMAXIMIZED"
    by (simp add: SW_SHOWNORMAL_def SW_SHOWMAXIMIZED_def)
  show ?thesis
  proof (cases "mode = ''normal''")
    case True
    obtain l t r b where r1: "w_rect (show_window w (c x) x) = (l, t, r, b)"
      by (metis prod_cases4)
    define T where "T = (wa_l + 20, wa_t + 20,
        wa_l + 20 + max 300 (min (r - l) (wa_r - wa_l - 40)),
        wa_t + 20 + max 200 (min (b - t) (wa_b - wa_t - 40)))"
    have p1: "placed w hmon mode x = moved T (show_window w (c x) x)"
      unfolding placed_def c_def [symmetric] Let_def wa prod.case T_def
      using True r1 by (simp add: c_def)
    define y where "y = placed w hmon mode x"
    have ys: "w_show y = SW_SHOWNORMAL" and yr: "w_rect y = T"
      unfolding y_def p1 by (simp_all add: moved_facts R)
    have r2: "w_rect (show_window w (c y) y) = T"
      by (simp add: R ys yr)
    have "placed w hmon mode y = moved T (show_window w (c y) y)"
      unfolding placed_def [of w hmon mode y] c_def [symmetric] Let_def wa prod.case
      using True r2 by (simp add: T_def clamp_idem c_def)
    then show ?thesis
      unfolding y_def [symmetric] by (simp add: moved_facts yr)
  next
    case False
    define K where "K = (px, py, px + pw, py + ph)"
    show ?thesis
    proof (cases "mode = ''maximize''")
      case True
      have p: "placed w hmon mode v = show_window w SW_MAXIMIZE (moved K (show_window w (c v) v))"
        for v
        unfolding placed_def c_def [symmetric] Let_def wa prod.case pg K_def
        using True False by (simp add: c_def)
      show ?thesis
        unfolding p by (simp add: show_window_maximize_facts moved_facts)
    next
      case nm: False
      have p: "placed w hmon mode v =
          moved (wa_l, wa_t, wa_l + (wa_r - wa_l), wa_t + (wa_b - wa_t))
            (moved K (show_window w (c v) v))" for v
        unfolding placed_def c_def [symmetric] Let_def wa prod.case pg K_def
        using nm False by (simp add: c_def)
      show ?thesis
        unfolding p by (simp add: moved_facts)
    qed
  qed
qed

lemma rect_unchanged [simp]: "\<not> rect_changed (Some r) (Some r)"
  by (simp add: rect_changed_def RECT_TOL_def list_ex_iff)

text \<open>
  Claim C8, on a desktop where nothing else acts between and during the two calls and
  the window manager carries out each request as asked: when \<open>move_and_set\<close> succeeds,
  a second call with the same arguments succeeds as well and leaves the window's
  rectangle exactly where the first call put it, which is within the tolerance.
\<close>

theorem move_and_set_twice:
  assumes "move_and_set (\<lambda>w. w) hwnd hmon mode w = (Inr (), w1)"
  shows "\<exists>w2. move_and_set (\<lambda>w. w) hwnd hmon mode w1 = (Inr (), w2)
           \<and> rect w1 hwnd \<noteq> None
           \<and> rect w2 hwnd = rect w1 hwnd
           \<and> \<not> rect_changed (rect w2 hwnd) (rect w1 hwnd)"
proof -
  obtain x where x: "find_window w hwnd = Some x"
    using assms by (cases "find_window w hwnd") (simp_all add: move_and_set_def GetWindowPlacement_def)
  from move_and_set_quiet [OF x, of hmon mode] assms
  have f1: "find_window w1 hwnd = Some (placed w hmon mode x)" and s1: "same_system w1 w"
    by auto
  from move_and_set_quiet [OF f1, of hmon mode]
  obtain w2 where m2: "move_and_set (\<lambda>w. w) hwnd hmon mode w1 = (Inr (), w2)"
    and f2: "find_window w2 hwnd = Some (placed w1 hmon mode (placed w hmon mode x))"
    by blast
  have "rect w2 hwnd = rect w1 hwnd"
    using rect_find_window [OF f1] rect_find_window [OF f2]
    by (simp add: placed_same_system [OF s1] w_rect_placed_twice)
  with m2 rect_find_window [OF f1] show ?thesis by simp
qed

subsection \<open>The calls that placement issues\<close>

definition placement_call :: "int \<Rightarrow> event \<Rightarrow> bool" where
  \<comment> \<open>a call on the window that is either a \<open>ShowWindow\<close> with one of the three commands
      of \<open>move_and_set\<close>, or a \<open>SetWindowPos\<close> with no insert-after handle and with the flags
      \<open>SWP_NOZORDER\<close> and \<open>SWP_NOACTIVATE\<close>\<close>
  "placement_call hwnd e =
     (case e of
        Spawn s \<Rightarrow> False
      | ShowWindowCall h c \<Rightarrow>
          h = hwnd \<and> (c = SW_SHOWNORMAL \<or> c = SW_RESTORE \<or> c = SW_MAXIMIZE)
      | SetWindowPosCall h a x y cx cy f \<Rightarrow>
          h = hwnd \<and> a = None \<and> f AND SWP_NOZORDER \<noteq> 0 \<and> f AND SWP_NOACTIVATE \<noteq> 0)"

lemma trace_ShowWindow [simp]:
  "trace (ShowWindow h c w) = trace w @ [ShowWindowCall h c]"
  by (simp add: ShowWindow_def Let_def activate_def raise_window_def update_window_def)

lemma trace_SetWindowPos [simp]:
  "trace (snd (SetWindowPos h a x y cx cy f w)) = trace w @ [SetWindowPosCall h a x y cx cy f]"
  by (simp add: SetWindowPos_def Let_def raise_window_def update_window_def)

lemma trace_SetWindowPos_eq:
  "SetWindowPos h a x y cx cy f w = (r, w') \<Longrightarrow>
   trace w' = trace w @ [SetWindowPosCall h a x y cx cy f]"
  using trace_SetWindowPos [of h a x y cx cy f w] by simp

lemma placement_call_simps [simp]:
  "placement_call hwnd (ShowWindowCall hwnd SW_SHOWNORMAL)"
  "placement_call hwnd (ShowWindowCall hwnd SW_RESTORE)"
  "placement_call hwnd (ShowWindowCall hwnd SW_MAXIMIZE)"
  "placement_call hwnd (SetWindowPosCall hwnd None x y cx cy swp_flags)"
  by (simp_all add: placement_call_def swp_flags_bits)


section \<open>Properties of the drift watchdog\<close>









definition placed_once :: os where
  \<comment> \<open>window 1 where placement in mode \<open>normal\<close> on monitor 1 puts it\<close>
  "placed_once = desktop [main_window 1 10 (20, 20, 820, 620)]"








theorem move_and_set_twice_witness:
  "fst (move_and_set (\<lambda>w. w) 1 2 ''workarea'' placed_once) = Inr ()
   \<and> rect (snd (move_and_set (\<lambda>w. w) 1 2 ''workarea'' placed_once)) 1
       = Some (1920, 0, 3840, 1040)
   \<and> fst (move_and_set (\<lambda>w. w) 1 2 ''workarea''
            (snd (move_and_set (\<lambda>w. w) 1 2 ''workarea'' placed_once))) = Inr ()
   \<and> rect (snd (move_and_set (\<lambda>w. w) 1 2 ''workarea''
                  (snd (move_and_set (\<lambda>w. w) 1 2 ''workarea'' placed_once)))) 1
       = Some (1920, 0, 3840, 1040)"
proof -
  have f: "find_window placed_once 1 = Some (main_window 1 10 (20, 20, 820, 620))"
    by (simp add: placed_once_def desktop_def find_window_def main_window_def)
  have wa: "workarea_for_hmon placed_once 2 = (1920, 0, 3840, 1040)"
    by (simp add: workarea_for_hmon_def placed_once_def desktop_def)
  from move_and_set_quiet [OF f, of 2 "''workarea''"]
  obtain w1 where m1: "move_and_set (\<lambda>w. w) 1 2 ''workarea'' placed_once = (Inr (), w1)"
    and f1: "find_window w1 1
       = Some (placed placed_once 2 ''workarea'' (main_window 1 10 (20, 20, 820, 620)))"
    by blast
  have r1: "rect w1 1 = Some (1920, 0, 3840, 1040)"
    using f1
    by (simp add: rect_def GetWindowRect_def placed_def wa Let_def moved_def
        split: prod.splits)
  from move_and_set_twice [OF m1]
  obtain w2 where m2: "move_and_set (\<lambda>w. w) 1 2 ''workarea'' w1 = (Inr (), w2)"
    and r2: "rect w2 1 = rect w1 1"
    by blast
  show ?thesis
    by (simp add: m1 m2 r1 r2)
qed

section \<open>What placement asks of the window manager\<close>

lemma GetWindowPlacement_IsWindow:
  "IsWindow w hwnd \<Longrightarrow> \<exists>c. GetWindowPlacement w hwnd = Some c"
  by (auto simp: IsWindow_def GetWindowPlacement_def)

lemma move_and_set_parks:
  assumes "IsWindow w hwnd" and "mode \<noteq> ''normal''"
    and "park_geometry (workarea_for_hmon w hmon) = (x, y, cx, cy)"
  shows "SetWindowPosCall hwnd None x y cx cy swp_flags
     \<in> set (trace (snd (move_and_set (\<lambda>w. w) hwnd hmon mode w)))"
proof -
  obtain c where c: "GetWindowPlacement w hwnd = Some c"
    using GetWindowPlacement_IsWindow [OF assms(1)] by blast
  define w1 where "w1 = (if c = SW_SHOWMAXIMIZED
      then sleep (\<lambda>w. w) 50 (ShowWindow hwnd SW_RESTORE w)
      else ShowWindow hwnd SW_SHOWNORMAL w)"
  have "same_system w1 w"
    unfolding w1_def
    by (auto intro: same_system_trans [OF same_system_sleep_quiet same_system_ShowWindow])
  then have wa: "workarea_for_hmon w1 hmon = workarea_for_hmon w hmon"
    by (simp add: same_system_fields)
  obtain l t r b where q: "workarea_for_hmon w hmon = (l, t, r, b)"
    by (metis prod_cases4)
  show ?thesis
    using assms(2,3)
    unfolding move_and_set_def c option.case Let_def w1_def [symmetric] wa q prod.case
    by (auto split: prod.splits sum.splits dest!: trace_SetWindowPos_eq)
qed

definition small_desktop :: os where
  \<comment> \<open>one monitor of 800 by 640 pixels with a taskbar of 40 pixels, and one window\<close>
  "small_desktop =
     (desktop [main_window 1 10 (0, 0, 500, 400)])
       \<lparr> monitors := [(1, (0, 0, 800, 640))],
         monitor_work := (\<lambda>h. if h = 1 then Some (0, 0, 800, 600) else None),
         system_work := Some (0, 0, 800, 600),
         screen_size := (800, 640),
         monitor_from_rect := (\<lambda>a. 1),
         maximized_rect := (\<lambda>h. (- 8, - 8, 808, 608)) \<rparr>"

text \<open>
  Claim C5 on a monitor whose work area is 800 by 600 pixels. In the modes \<open>maximize\<close>
  and \<open>workarea\<close>, \<open>move_and_set\<close> parks the window with a \<open>SetWindowPos\<close> at (20, 20)
  with size 800 by 600: the size is within the clamps, and the rectangle reaches 20
  pixels past the right and the bottom edge of the work area, and past the right edge of
  the monitor.
\<close>

theorem move_and_set_parks_outside_small_work_area:
  "enum_monitors_sorted small_desktop = [(1, (0, 0, 800, 640))]
   \<and> workarea_for_hmon small_desktop 1 = (0, 0, 800, 600)
   \<and> park_geometry (workarea_for_hmon small_desktop 1) = (20, 20, 800, 600)
   \<and> SetWindowPosCall 1 None 20 20 800 600 swp_flags
       \<in> set (trace (snd (move_and_set (\<lambda>w. w) 1 1 ''maximize'' small_desktop)))
   \<and> SetWindowPosCall 1 None 20 20 800 600 swp_flags
       \<in> set (trace (snd (move_and_set (\<lambda>w. w) 1 1 ''workarea'' small_desktop)))
   \<and> \<not> inside (20, 20, 800, 600) (0, 0, 800, 600)
   \<and> \<not> inside (20, 20, 800, 600) (0, 0, 800, 640)"
proof -
  have wa: "workarea_for_hmon small_desktop 1 = (0, 0, 800, 600)"
    by (simp add: workarea_for_hmon_def small_desktop_def desktop_def)
  have pg: "park_geometry (workarea_for_hmon small_desktop 1) = (20, 20, 800, 600)"
    by (simp add: wa park_geometry_def Let_def)
  have iw: "IsWindow small_desktop 1"
    by (simp add: IsWindow_def find_window_def small_desktop_def desktop_def main_window_def)
  have em: "enum_monitors_sorted small_desktop = [(1, (0, 0, 800, 640))]"
    by (simp add: enum_monitors_sorted_def small_desktop_def desktop_def)
  have "SetWindowPosCall 1 None 20 20 800 600 swp_flags
       \<in> set (trace (snd (move_and_set (\<lambda>w. w) 1 1 ''maximize'' small_desktop)))"
    by (rule move_and_set_parks [OF iw _ pg]) simp
  moreover have "SetWindowPosCall 1 None 20 20 800 600 swp_flags
       \<in> set (trace (snd (move_and_set (\<lambda>w. w) 1 1 ''workarea'' small_desktop)))"
    by (rule move_and_set_parks [OF iw _ pg]) simp
  ultimately show ?thesis
    using pg by (simp add: wa em inside_def)
qed

definition behind :: os where
  \<comment> \<open>window 1 lies behind window 2, which is the active window\<close>
  "behind =
     (desktop [main_window 2 11 (0, 0, 1000, 700), main_window 1 10 (100, 100, 900, 700)])
       \<lparr>foreground := Some 2\<rparr>"

text \<open>
  Claim C9 on a desktop where window 1 lies behind the active window 2. In each mode
  the first request of \<open>move_and_set\<close> is a \<open>ShowWindow\<close> with \<open>SW_SHOWNORMAL\<close>,
  which activates the window: after the call window 1 is the active window and the
  topmost one. The \<open>SetWindowPos\<close> requests carry \<open>SWP_NOZORDER\<close> and
  \<open>SWP_NOACTIVATE\<close>; window 2 keeps its record.
\<close>

theorem move_and_set_activates_the_window:
  "foreground behind = Some 2
   \<and> EnumWindows behind = [2, 1]
   \<and> hd (trace (snd (move_and_set (\<lambda>w. w) 1 1 ''normal'' behind)))
       = ShowWindowCall 1 SW_SHOWNORMAL
   \<and> foreground (snd (move_and_set (\<lambda>w. w) 1 1 ''normal'' behind)) = Some 1
   \<and> EnumWindows (snd (move_and_set (\<lambda>w. w) 1 1 ''normal'' behind)) = [1, 2]
   \<and> foreground (snd (move_and_set (\<lambda>w. w) 1 1 ''maximize'' behind)) = Some 1
   \<and> EnumWindows (snd (move_and_set (\<lambda>w. w) 1 1 ''maximize'' behind)) = [1, 2]
   \<and> foreground (snd (move_and_set (\<lambda>w. w) 1 1 ''workarea'' behind)) = Some 1
   \<and> EnumWindows (snd (move_and_set (\<lambda>w. w) 1 1 ''workarea'' behind)) = [1, 2]
   \<and> find_window (snd (move_and_set (\<lambda>w. w) 1 1 ''normal'' behind)) 2
       = find_window behind 2"
proof -
  have f: "find_window behind 1 = Some (main_window 1 10 (100, 100, 900, 700))"
    by (simp add: behind_def desktop_def find_window_def main_window_def)
  have e: "EnumWindows behind = [2, 1]" and g: "foreground behind = Some 2"
    and t: "trace behind = []"
    by (simp_all add: behind_def EnumWindows_def desktop_def main_window_def)
  have o: "filter (\<lambda>v. w_hwnd v \<noteq> 1) (windows behind) = [main_window 2 11 (0, 0, 1000, 700)]"
    by (simp add: behind_def desktop_def main_window_def)
  have iw: "IsWindow behind 1"
    by (simp add: IsWindow_def f)
  have gp: "GetWindowPlacement behind 1 = Some SW_SHOWNORMAL"
    by (simp add: GetWindowPlacement_def f main_window_def)
  have nm: "SW_SHOWNORMAL \<noteq> SW_SHOWMAXIMIZED"
    by (simp add: SW_SHOWNORMAL_def SW_SHOWMAXIMIZED_def)
  define w1 where "w1 = ShowWindow 1 SW_SHOWNORMAL behind"
  have w1: "w1 = behind\<lparr>windows := [main_window 1 10 (100, 100, 900, 700),
                                     main_window 2 11 (0, 0, 1000, 700)],
                         foreground := Some 1,
                         trace := [ShowWindowCall 1 SW_SHOWNORMAL]\<rparr>"
    unfolding w1_def
    by (simp add: ShowWindow_def Let_def IsWindow_def find_window_def activate_def
        raise_window_def update_window_def show_window_def behind_def desktop_def
        main_window_def SW_SHOWNORMAL_def)
  have r: "foreground (snd (move_and_set (\<lambda>w. w) 1 1 mode behind)) = Some 1
      \<and> EnumWindows (snd (move_and_set (\<lambda>w. w) 1 1 mode behind)) = [1, 2]
      \<and> find_window (snd (move_and_set (\<lambda>w. w) 1 1 mode behind)) 2 = find_window behind 2
      \<and> hd (trace (snd (move_and_set (\<lambda>w. w) 1 1 mode behind)))
           = ShowWindowCall 1 SW_SHOWNORMAL"
    for mode
    unfolding move_and_set_def gp option.case Let_def if_not_P [OF nm] w1_def [symmetric]
    unfolding w1
    by (simp add: workarea_for_hmon_def behind_def desktop_def main_window_def rect_def
        GetWindowRect_def find_window_def SetWindowPos_def IsWindow_def Let_def
        swp_flags_bits update_window_def raise_window_def park_geometry_def sleep_def
        ShowWindow_def activate_def show_window_def EnumWindows_def
        SW_SHOWNORMAL_def SW_MAXIMIZE_def SW_RESTORE_def)
  show ?thesis
    using r [of "''normal''"] r [of "''maximize''"] r [of "''workarea''"]
    by (simp add: e g)
qed

section \<open>Properties of the stability policy\<close>

lemma stable_needed_pos: "0 < stable_needed"
  by (simp add: stable_needed_value)

lemma wait_stable_timeout:
  "deadline \<le> clock w \<Longrightarrow>
   wait_stable app select_fn deadline hwnd last_rect stable_time w = (None, w)"
  by (subst wait_stable.simps) simp

lemma wait_stable_no_candidate:
  "clock w < deadline \<Longrightarrow> \<not> truthy (select_fn w) \<Longrightarrow>
   wait_stable app select_fn deadline hwnd last_rect stable_time w
     = wait_stable app select_fn deadline hwnd last_rect stable_time
         (sleep app POLL_INTERVAL_MS w)"
  by (subst wait_stable.simps) (simp add: Let_def)







definition jittered :: "RECT \<Rightarrow> nat \<Rightarrow> os" where
  \<comment> \<open>one window, created at (0, 0, 500, 500), with rectangle \<open>r\<close> at time \<open>c\<close>\<close>
  "jittered r c =
     (desktop [(main_window 1 10 (0, 0, 500, 500))\<lparr>w_rect := r\<rparr>])\<lparr>clock := c\<rparr>"



lemma rect_jittered [simp]: "rect (jittered r c) 1 = Some r"
  by (simp add: rect_def GetWindowRect_def jittered_def desktop_def main_window_def
      find_window_def)

lemma clock_jittered [simp]: "clock (jittered r c) = c"
  by (simp add: jittered_def)




end
